theory Spec2Isabelle
  imports Complex_Main
begin

section \<open>Wire types\<close>

text \<open>
  The structs of the chat client, with the field names of the Go source. Strings are byte
  strings, as Go's are. The integer fields (\<open>Index\<close>, \<open>Created\<close>, the token counts,
  the status code) are only carried and compared, never computed with, so they are
  integers here; \<open>Temperature\<close> is only handed on to the request.
\<close>

record Message =
  Role :: string
  Content :: string

record Choice =
  Index :: int
  Message :: Message
  FinishReason :: string

record Usage =
  PromptTokens :: int
  CompletionTokens :: int
  TotalTokens :: int

record OpenAIResponse =
  ID :: string
  Object :: string
  Created :: int
  Model :: string
  Choices :: "Choice list"
  Usage :: Usage

record OpenAIRequest =
  Model :: string
  Messages :: "Message list"
  Temperature :: real
  MaxTokens :: int
  Stream :: bool

text \<open>
  The chunk that \<open>handleStreamResponse\<close> declares inside its loop: an anonymous struct in
  the source, named here after its role.
\<close>

record Delta =
  Role :: string
  Content :: string

record ChunkChoice =
  Index :: int
  Delta :: Delta
  FinishReason :: "string option"

record StreamChunk =
  ID :: string
  Object :: string
  Created :: int
  Model :: string
  Choices :: "ChunkChoice list"

record ChatOptions =
  Temperature :: real
  MaxTokens :: int
  Stream :: bool
  History :: "Message list"

record ModelConfig =
  Name :: string
  URL :: string
  APIKey :: string
  DefaultEnabled :: bool
  DefaultChatOptions :: "ChatOptions option"

section \<open>Errors and results\<close>

text \<open>
  \<open>scan_error\<close> is the error a \<open>bufio.Scanner\<close> holds: \<open>io.EOF\<close>, \<open>bufio.ErrTooLong\<close>,
  or the error the body's \<open>Read\<close> returned. \<open>error\<close> has one constructor for each
  \<open>fmt.Errorf\<close> of the client, carrying the values the message is formatted from.
\<close>

datatype scan_error = EOF | ErrTooLong | ReadError string

datatype error =
    SerializeFailed string
  | CreateRequestFailed string
  | SendFailed string
  | APIRequestFailed int string
  | ParseFailed string
  | EmptyResponse
  | ScanFailed scan_error

text \<open>
  What a call returns, \<open>(string, error)\<close> in Go, and what it wrote to standard output
  on the way.
\<close>

record Result =
  answer :: string
  failure :: "error option"
  printed :: string

text \<open>
  An \<open>io.Reader\<close> that makes progress: the bytes it delivers, how the delivery ends,
  with \<open>io.EOF\<close> (\<open>None\<close>) or with a read error, and how the end arrives.
  \<open>last_read\<close> is the number of bytes that the reader's last \<open>Read\<close> delivers
  together with the end: \<open>0\<close> when the end is reported by a \<open>Read\<close> of its own, as
  \<open>strings.Reader\<close> does, more when the last bytes and the end come in one \<open>Read\<close>, as
  the body of an HTTP response may do. How the bytes before that are cut into
  \<open>Read\<close>s makes no difference to the scanner.
\<close>

record Reader =
  content :: string
  read_error :: "string option"
  last_read :: nat

section \<open>Strings\<close>

definition HasPrefix :: "string \<Rightarrow> string \<Rightarrow> bool" where
  "HasPrefix s prefix = (length s \<ge> length prefix \<and> take (length prefix) s = prefix)"

definition HasSuffix :: "string \<Rightarrow> string \<Rightarrow> bool" where
  "HasSuffix s suffix =
     (length s \<ge> length suffix \<and> drop (length s - length suffix) s = suffix)"

definition TrimPrefix :: "string \<Rightarrow> string \<Rightarrow> string" where
  "TrimPrefix s prefix = (if HasPrefix s prefix then drop (length prefix) s else s)"

fun IndexByte :: "string \<Rightarrow> char \<Rightarrow> nat option" where
  "IndexByte [] c = None"
| "IndexByte (b # bs) c = (if b = c then Some 0 else map_option Suc (IndexByte bs c))"

section \<open>The line scanner\<close>

text \<open>
  \<open>bufio.Scanner\<close> with its default split function \<open>ScanLines\<close> and its default
  buffer. \<open>dropCR\<close> and \<open>ScanLines\<close> are the library's functions as they are. The
  scanner's buffer is not modelled byte by byte: \<open>src\<close> holds the bytes of the body that
  no token has consumed yet (buffered or still to be read), and the buffer can hold
  \<open>MaxScanTokenSize\<close> of them. \<open>src_error\<close> and \<open>src_last\<close> are the reader's end.
  \<open>err\<close> is the scanner's sticky error, \<open>tok\<close> the last token.
\<close>

definition MaxScanTokenSize :: nat where
  "MaxScanTokenSize = 64 * 1024"

definition dropCR :: "string \<Rightarrow> string" where
  "dropCR data =
     (if length data > 0 \<and> data ! (length data - 1) = CHR 0x0D
      then take (length data - 1) data else data)"

definition ScanLines :: "string \<Rightarrow> bool \<Rightarrow> nat \<times> string option" where
  "ScanLines data atEOF =
     (if atEOF \<and> length data = 0 then (0, None)
      else case IndexByte data (CHR 0x0A) of
             Some i \<Rightarrow> (i + 1, Some (dropCR (take i data)))
           | None \<Rightarrow> if atEOF then (length data, Some (dropCR data)) else (0, None))"

record Scanner =
  src :: string
  src_error :: "string option"
  src_last :: nat
  tok :: string
  err :: "scan_error option"

definition NewScanner :: "Reader \<Rightarrow> Scanner" where
  "NewScanner r =
     \<lparr>src = content r, src_error = read_error r, src_last = last_read r, tok = [],
      err = None\<rparr>"

text \<open>The error the scanner records at the end of the body.\<close>

definition end_of :: "Scanner \<Rightarrow> scan_error" where
  "end_of s = (case src_error s of None \<Rightarrow> EOF | Some e \<Rightarrow> ReadError e)"

text \<open>
  One call of \<open>Scan\<close>.

  With no error recorded, the scanner reads until the split function finds a full line
  in the buffer. \<open>quiet\<close> is what arrives before the reader's last \<open>Read\<close>. A full line
  within it, in reach of the buffer, is the token, and no error is recorded. Without one,
  when these bytes alone fill the buffer the scan fails with \<open>ErrTooLong\<close>. Otherwise
  the scanner comes to the last \<open>Read\<close>, which brings the rest of the body and its end:
  the scanner records the end and the split function, now at the end of the input, gives
  the next line, or what is left as the final token, or nothing. (A reader is handed the
  free part of the buffer, so that its last \<open>Read\<close> never brings more than the buffer
  holds; for a \<open>last_read\<close> that large, the buffer is filled as far as it goes, without
  the end.)

  With the end recorded, whether \<open>io.EOF\<close> or a read error, all the rest of the body is
  in the buffer and the split function goes on handing out its lines: the error of a
  \<open>Read\<close> that also delivered bytes is kept while the buffered lines are scanned, and
  \<open>Err\<close> returns it afterwards. After \<open>ErrTooLong\<close> the loop of
  \<open>handleStreamResponse\<close> does not call \<open>Scan\<close> again.
\<close>

definition Scan :: "Scanner \<Rightarrow> bool \<times> Scanner" where
  "Scan s =
     (case err s of
        Some ErrTooLong \<Rightarrow> (False, s)
      | Some e \<Rightarrow>
          (case ScanLines (src s) True of
             (advance, Some token) \<Rightarrow> (True, s\<lparr>src := drop advance (src s), tok := token\<rparr>)
           | (advance, None) \<Rightarrow> (False, s\<lparr>src := []\<rparr>))
      | None \<Rightarrow>
          let quiet = take (length (src s) - src_last s) (src s);
              buf = take MaxScanTokenSize quiet
          in (case ScanLines buf False of
                (advance, Some token) \<Rightarrow>
                  (True, s\<lparr>src := drop advance (src s), tok := token\<rparr>)
              | (advance, None) \<Rightarrow>
                  if length buf \<ge> MaxScanTokenSize then (False, s\<lparr>err := Some ErrTooLong\<rparr>)
                  else if length (src s) \<le> MaxScanTokenSize then
                    let s' = s\<lparr>err := Some (end_of s)\<rparr> in
                    (case ScanLines (src s) True of
                       (advance, Some token) \<Rightarrow>
                         (True, s'\<lparr>src := drop advance (src s), tok := token\<rparr>)
                     | (advance, None) \<Rightarrow> (False, s'))
                  else
                    (case ScanLines (take MaxScanTokenSize (src s)) False of
                       (advance, Some token) \<Rightarrow>
                         (True, s\<lparr>src := drop advance (src s), tok := token\<rparr>)
                     | (advance, None) \<Rightarrow> (False, s\<lparr>err := Some ErrTooLong\<rparr>))))"

definition Text :: "Scanner \<Rightarrow> string" where
  "Text s = tok s"

definition Err :: "Scanner \<Rightarrow> scan_error option" where
  "Err s = (case err s of Some EOF \<Rightarrow> None | e \<Rightarrow> e)"

section \<open>The stream decoder\<close>

text \<open>
  \<open>handleStreamResponse\<close>. \<open>json.Unmarshal\<close> into the chunk struct is a parameter:
  \<open>Inl\<close> is its error, \<open>Inr\<close> the chunk it filled. The state of the loop is the
  string builder \<open>fullContent\<close> and what \<open>fmt.Print\<close> has written.
\<close>

record Sink =
  fullContent :: string
  stdout :: string

datatype flow = Continue | Break

text \<open>The body of the loop, for one line of the scanner.\<close>

definition stream_line ::
  "(string \<Rightarrow> string + StreamChunk) \<Rightarrow> string \<Rightarrow> Sink \<Rightarrow> flow \<times> Sink" where
  "stream_line unmarshal line st =
     (if line = [] then (Continue, st)
      else if \<not> HasPrefix line ''data: '' then (Continue, st)
      else
        let data = TrimPrefix line ''data: '' in
        if data = ''[DONE]'' then (Break, st)
        else
          (case unmarshal data of
             Inl e \<Rightarrow> (Continue, st)
           | Inr chunk \<Rightarrow>
               if length (StreamChunk.Choices chunk) > 0 then
                 let content = Delta.Content (Delta (StreamChunk.Choices chunk ! 0)) in
                 if content \<noteq> [] then
                   (Continue, st\<lparr>fullContent := fullContent st @ content,
                                  stdout := stdout st @ content\<rparr>)
                 else (Continue, st)
               else (Continue, st)))"

function stream_loop ::
  "(string \<Rightarrow> string + StreamChunk) \<Rightarrow> Scanner \<Rightarrow> Sink \<Rightarrow> Sink \<times> Scanner" where
  "stream_loop unmarshal scanner st =
     (case Scan scanner of
        (False, scanner') \<Rightarrow> (st, scanner')
      | (True, scanner') \<Rightarrow>
          (case stream_line unmarshal (Text scanner') st of
             (Continue, st') \<Rightarrow> stream_loop unmarshal scanner' st'
           | (Break, st') \<Rightarrow> (st', scanner')))"
  by pat_completeness auto

lemma IndexByte_less: "IndexByte bs c = Some i \<Longrightarrow> i < length bs"
  by (induction bs arbitrary: i) (auto split: if_splits)

lemma Scan_consumes: "Scan s = (True, s') \<Longrightarrow> length (src s') < length (src s)"
  by (auto simp: Scan_def ScanLines_def Let_def
      split: option.splits if_splits prod.splits scan_error.splits dest!: IndexByte_less)

termination stream_loop
  by (relation "measure (\<lambda>(u, s, st). length (src s))") (auto dest: Scan_consumes [OF sym])

text \<open>What follows the loop, from the result of \<open>scanner.Err()\<close>.\<close>

definition stream_return :: "Sink \<Rightarrow> scan_error option \<Rightarrow> Result" where
  "stream_return st e =
     (case e of
        Some e' \<Rightarrow>
          \<lparr>answer = fullContent st, failure = Some (ScanFailed e'), printed = stdout st\<rparr>
      | None \<Rightarrow>
          \<lparr>answer = fullContent st, failure = None, printed = stdout st @ [CHR 0x0A]\<rparr>)"

definition handleStreamResponse ::
  "(string \<Rightarrow> string + StreamChunk) \<Rightarrow> Reader \<Rightarrow> Result" where
  "handleStreamResponse unmarshal respBody =
     (let scanner = NewScanner respBody in
      case stream_loop unmarshal scanner \<lparr>fullContent = [], stdout = []\<rparr> of
        (st, scanner') \<Rightarrow> stream_return st (Err scanner'))"

section \<open>The single-shot decoder\<close>

text \<open>
  \<open>handleNormalResponse\<close>. \<open>json.NewDecoder(respBody).Decode\<close> into an
  \<open>OpenAIResponse\<close> is a parameter: \<open>Inl\<close> is its error, \<open>Inr\<close> the envelope.
\<close>

definition handleNormalResponse ::
  "(Reader \<Rightarrow> string + OpenAIResponse) \<Rightarrow> Reader \<Rightarrow> Result" where
  "handleNormalResponse decode respBody =
     (case decode respBody of
        Inl e \<Rightarrow> \<lparr>answer = [], failure = Some (ParseFailed e), printed = []\<rparr>
      | Inr apiResp \<Rightarrow>
          if length (OpenAIResponse.Choices apiResp) = 0
          then \<lparr>answer = [], failure = Some EmptyResponse, printed = []\<rparr>
          else \<lparr>answer = Message.Content (Choice.Message (OpenAIResponse.Choices apiResp ! 0)),
                failure = None, printed = []\<rparr>)"

section \<open>The chat transport\<close>

record HTTPClient =
  Timeout :: nat

record OpenAIClient =
  apiKey :: string
  apiURL :: string
  httpClient :: HTTPClient
  model :: string

definition NewOpenAIClient :: "ModelConfig \<Rightarrow> OpenAIClient" where
  "NewOpenAIClient modelConfig =
     \<lparr>apiKey = APIKey modelConfig, apiURL = ModelConfig.URL modelConfig,
      httpClient = \<lparr>Timeout = 60\<rparr>, model = Name modelConfig\<rparr>"

record Request =
  Method :: string
  URL :: string
  Header :: "string \<rightharpoonup> string list"
  Body :: string

record Response =
  StatusCode :: int
  Body :: Reader

text \<open>
  What \<open>Chat\<close> calls outside the repository: \<open>json.Marshal\<close> of the request,
  \<open>http.NewRequestWithContext\<close> (method, URL, body), the client's \<open>Do\<close> (which also
  stands for the context: a cancelled or timed-out call is an error of \<open>Do\<close>), and the two
  JSON decoders. Each returns \<open>Inl\<close> for its error.
\<close>

record World =
  Marshal :: "OpenAIRequest \<Rightarrow> string + string"
  NewRequestWithContext :: "string \<Rightarrow> string \<Rightarrow> string \<Rightarrow> string + Request"
  Do :: "HTTPClient \<Rightarrow> Request \<Rightarrow> string + Response"
  Decode :: "Reader \<Rightarrow> string + OpenAIResponse"
  Unmarshal :: "string \<Rightarrow> string + StreamChunk"

definition ReadAll :: "Reader \<Rightarrow> string \<times> string option" where
  "ReadAll r = (content r, read_error r)"

definition failed :: "error \<Rightarrow> Result" where
  "failed e = \<lparr>answer = [], failure = Some e, printed = []\<rparr>"

text \<open>The URL of the request, as \<open>Chat\<close> computes it from the client's \<open>apiURL\<close>.\<close>

definition endpoint :: "string \<Rightarrow> string" where
  "endpoint url =
     (let apiURL = url;
          apiURL = (if \<not> HasSuffix apiURL ''/'' then apiURL @ ''/'' else apiURL)
      in apiURL @ ''v1/chat/completions'')"

text \<open>
  \<open>Chat\<close>, in two parts: building and sending the request, up to the response received
  (\<open>roundTrip\<close>), and the handling of that response. The options are taken as they
  are: both callers in the repository pass a pointer that is not nil, and with a nil
  pointer \<open>Chat\<close> panics before anything is sent.
\<close>

definition roundTrip ::
  "World \<Rightarrow> OpenAIClient \<Rightarrow> Message list \<Rightarrow> ChatOptions \<Rightarrow> error + Response" where
  "roundTrip w c messages opts =
     (let req = \<lparr>OpenAIRequest.Model = model c, Messages = messages,
                 Temperature = ChatOptions.Temperature opts,
                 MaxTokens = ChatOptions.MaxTokens opts,
                 Stream = ChatOptions.Stream opts\<rparr>
      in case Marshal w req of
           Inl e \<Rightarrow> Inl (SerializeFailed e)
         | Inr reqBody \<Rightarrow>
             (case NewRequestWithContext w ''POST'' (endpoint (apiURL c)) reqBody of
                Inl e \<Rightarrow> Inl (CreateRequestFailed e)
              | Inr httpReq \<Rightarrow>
                  let httpReq = httpReq\<lparr>Header := (Header httpReq)
                        (''Content-Type'' \<mapsto> [''application/json''],
                         ''Authorization'' \<mapsto> [''Bearer '' @ apiKey c])\<rparr>
                  in (case Do w (httpClient c) httpReq of
                        Inl e \<Rightarrow> Inl (SendFailed e)
                      | Inr resp \<Rightarrow> Inr resp)))"

definition Chat :: "World \<Rightarrow> OpenAIClient \<Rightarrow> Message list \<Rightarrow> ChatOptions \<Rightarrow> Result" where
  "Chat w c messages opts =
     (case roundTrip w c messages opts of
        Inl e \<Rightarrow> failed e
      | Inr resp \<Rightarrow>
          if StatusCode resp \<noteq> 200 then
            (case ReadAll (Response.Body resp) of
               (body, _) \<Rightarrow> failed (APIRequestFailed (StatusCode resp) body))
          else if ChatOptions.Stream opts
          then handleStreamResponse (Unmarshal w) (Response.Body resp)
          else handleNormalResponse (Decode w) (Response.Body resp))"

section \<open>The model\<close>

type_synonym ChatOption = "ChatOptions \<Rightarrow> ChatOptions"

definition WithTemperature :: "real \<Rightarrow> ChatOption" where
  "WithTemperature temp = (\<lambda>opts. opts\<lparr>ChatOptions.Temperature := temp\<rparr>)"

definition WithMaxTokens :: "int \<Rightarrow> ChatOption" where
  "WithMaxTokens tokens = (\<lambda>opts. opts\<lparr>ChatOptions.MaxTokens := tokens\<rparr>)"

definition WithStream :: "bool \<Rightarrow> ChatOption" where
  "WithStream stream = (\<lambda>opts. opts\<lparr>ChatOptions.Stream := stream\<rparr>)"

definition WithHistory :: "Message list \<Rightarrow> ChatOption" where
  "WithHistory messages = (\<lambda>opts. opts\<lparr>History := messages\<rparr>)"

definition DefaultChatOptions :: ChatOptions where
  "DefaultChatOptions =
     \<lparr>ChatOptions.Temperature = 0.2, MaxTokens = 4096, Stream = True, History = []\<rparr>"

record OpenAIModel =
  config :: ModelConfig

text \<open>The options are applied in order, each to the options the one before left.\<close>

definition apply_options :: "ChatOption list \<Rightarrow> ChatOptions \<Rightarrow> ChatOptions" where
  "apply_options options opts = fold (\<lambda>option opts. option opts) options opts"

definition client_of :: "OpenAIModel \<Rightarrow> OpenAIClient" where
  "client_of m =
     NewOpenAIClient
       \<lparr>Name = Name (config m), URL = ModelConfig.URL (config m), APIKey = APIKey (config m),
        DefaultEnabled = False, DefaultChatOptions = None\<rparr>"

definition OpenAIModel_Chat ::
  "World \<Rightarrow> OpenAIModel \<Rightarrow> string \<Rightarrow> ChatOption list \<Rightarrow> Result" where
  "OpenAIModel_Chat w m question options =
     (let opts = apply_options options DefaultChatOptions;
          messages = [];
          messages = (if length (History opts) > 0 then messages @ History opts else messages);
          messages = messages @ [\<lparr>Message.Role = ''user'', Content = question\<rparr>]
      in Chat w (client_of m) messages opts)"

definition file_prompt :: "string \<Rightarrow> string \<Rightarrow> string \<Rightarrow> string" where
  "file_prompt fileName fileContent question =
     ''file name: '' @ fileName @ [CHR 0x0A, CHR 0x0A] @ ''file content:'' @ [CHR 0x0A]
       @ fileContent @ [CHR 0x0A, CHR 0x0A] @ ''question: '' @ question"

definition OpenAIModel_ChatWithFile ::
  "World \<Rightarrow> OpenAIModel \<Rightarrow> string \<Rightarrow> string \<Rightarrow> string \<Rightarrow> ChatOption list \<Rightarrow> Result" where
  "OpenAIModel_ChatWithFile w m question fileName fileContent options =
     (let opts = (case ModelConfig.DefaultChatOptions (config m) of
                    Some defaultOpts \<Rightarrow> defaultOpts
                  | None \<Rightarrow> DefaultChatOptions);
          opts = apply_options options opts;
          prompt = file_prompt fileName fileContent question;
          messages = [\<lparr>Message.Role = ''user'', Content = prompt\<rparr>]
      in Chat w (client_of m) messages opts)"

section \<open>A backend for the examples\<close>

text \<open>
  A world like the test server of the repository: every request is marshalled and built,
  and every call is answered with the given status code and body. Its decoders reject
  everything; the examples that decode put their own in.
\<close>

definition mock_World :: "int \<Rightarrow> Reader \<Rightarrow> World" where
  "mock_World status body =
     \<lparr>Marshal = (\<lambda>req. Inr ''{}''),
      NewRequestWithContext =
        (\<lambda>method url reqBody.
           Inr \<lparr>Method = method, URL = url, Header = Map.empty, Body = reqBody\<rparr>),
      Do = (\<lambda>client httpReq. Inr \<lparr>StatusCode = status, Body = body\<rparr>),
      Decode = (\<lambda>r. Inl ''unexpected end of JSON input''),
      Unmarshal = (\<lambda>data. Inl ''unexpected end of JSON input'')\<rparr>"

definition test_client :: OpenAIClient where
  "test_client =
     NewOpenAIClient
       \<lparr>Name = ''test-openai'', URL = ''http://127.0.0.1:8080'', APIKey = ''test-api-key'',
        DefaultEnabled = False, DefaultChatOptions = None\<rparr>"

definition hello :: "Message list" where
  "hello = [\<lparr>Message.Role = ''user'', Content = ''Hello''\<rparr>]"

section \<open>The endpoint URL\<close>

text \<open>
  C8. For a base URL that does not end in \<open>/\<close>, the endpoint computed for it and the one
  computed for it with a \<open>/\<close> appended are the same, namely the base URL followed by
  \<open>/v1/chat/completions\<close>.
\<close>

theorem endpoint_trailing_separator:
  assumes "\<not> HasSuffix b ''/''"
  shows "endpoint b = endpoint (b @ ''/'') \<and> endpoint b = b @ ''/v1/chat/completions''"
  using assms by (simp add: endpoint_def HasSuffix_def)

theorem endpoint_trailing_separator_witness:
  "\<not> HasSuffix ''https://api.openai.com'' ''/''
   \<and> endpoint ''https://api.openai.com'' = endpoint ''https://api.openai.com/''
   \<and> endpoint ''https://api.openai.com'' = ''https://api.openai.com/v1/chat/completions''"
proof -
  have h: "\<not> HasSuffix ''https://api.openai.com'' ''/''"
    by (simp add: HasSuffix_def)
  note t = endpoint_trailing_separator [OF h]
  from t [THEN conjunct1]
  have a: "endpoint ''https://api.openai.com'' = endpoint ''https://api.openai.com/''"
    by simp
  from t [THEN conjunct2]
  have b: "endpoint ''https://api.openai.com'' = ''https://api.openai.com/v1/chat/completions''"
    by simp
  show ?thesis
    using h a b by blast
qed

section \<open>The response envelope\<close>

text \<open>
  C4. When the body decodes to an envelope, \<open>handleNormalResponse\<close> fails with the
  empty-response error if the envelope has no choice (it returns no text as a success
  and reads no element of the empty list), and returns the content of the message of the
  first choice otherwise.
\<close>

theorem normal_response_first_choice:
  assumes "decode respBody = Inr apiResp"
  shows "handleNormalResponse decode respBody =
    (if OpenAIResponse.Choices apiResp = []
     then \<lparr>answer = [], failure = Some EmptyResponse, printed = []\<rparr>
     else \<lparr>answer = Message.Content (Choice.Message (hd (OpenAIResponse.Choices apiResp))),
           failure = None, printed = []\<rparr>)"
  using assms by (simp add: handleNormalResponse_def hd_conv_nth)

definition test_envelope :: "Choice list \<Rightarrow> OpenAIResponse" where
  "test_envelope cs =
     \<lparr>OpenAIResponse.ID = ''chatcmpl-123'', Object = ''chat.completion'', Created = 1677858242,
      Model = ''gpt-3.5-turbo-0613'', Choices = cs,
      Usage = \<lparr>PromptTokens = 10, CompletionTokens = 20, TotalTokens = 30\<rparr>\<rparr>"

definition test_choice :: Choice where
  "test_choice =
     \<lparr>Choice.Index = 0,
      Message = \<lparr>Message.Role = ''assistant'', Content = ''this is a test response''\<rparr>,
      FinishReason = ''stop''\<rparr>"

theorem normal_response_first_choice_witness:
  "handleNormalResponse (\<lambda>r. Inr (test_envelope [])) \<lparr>content = [], read_error = None, last_read = 0\<rparr> =
     \<lparr>answer = [], failure = Some EmptyResponse, printed = []\<rparr>
   \<and> handleNormalResponse (\<lambda>r. Inr (test_envelope [test_choice]))
       \<lparr>content = [], read_error = None, last_read = 0\<rparr> =
     \<lparr>answer = ''this is a test response'', failure = None, printed = []\<rparr>"
proof -
  have a: "(\<lambda>r. Inr (test_envelope [])) \<lparr>content = [], read_error = None, last_read = 0\<rparr>
      = Inr (test_envelope [])"
    by simp
  have b: "(\<lambda>r. Inr (test_envelope [test_choice])) \<lparr>content = [], read_error = None, last_read = 0\<rparr>
      = Inr (test_envelope [test_choice])"
    by simp
  show ?thesis
    using normal_response_first_choice [OF a] normal_response_first_choice [OF b]
    by (simp add: test_envelope_def test_choice_def)
qed

section \<open>Status codes\<close>

lemma roundTrip_decoders:
  "roundTrip (w\<lparr>Decode := d, Unmarshal := u\<rparr>) c messages opts = roundTrip w c messages opts"
  by (simp add: roundTrip_def Let_def split: sum.splits)

lemma Chat_not_ok:
  assumes "roundTrip w c messages opts = Inr resp" and "StatusCode resp \<noteq> 200"
  shows "Chat (w\<lparr>Decode := d, Unmarshal := u\<rparr>) c messages opts =
    \<lparr>answer = [],
     failure = Some (APIRequestFailed (StatusCode resp) (content (Response.Body resp))),
     printed = []\<rparr>"
  using assms by (simp add: Chat_def roundTrip_decoders failed_def ReadAll_def)

lemma mock_roundTrip:
  "roundTrip (mock_World status body) c messages opts = Inr \<lparr>StatusCode = status, Body = body\<rparr>"
  by (simp add: roundTrip_def mock_World_def)

lemma World_same_decoders: "w\<lparr>Decode := Decode w, Unmarshal := Unmarshal w\<rparr> = w"
  by simp

text \<open>
  C3. When the response received has a status code of 400 or more, \<open>Chat\<close> fails with
  the API error that carries the status code and the body as read, whatever the body is.
  The body is not decoded: the result is the same whatever the two decoders are.
\<close>

theorem chat_error_status:
  assumes "roundTrip w c messages opts = Inr resp" and "StatusCode resp \<ge> 400"
  shows "Chat (w\<lparr>Decode := d, Unmarshal := u\<rparr>) c messages opts =
    \<lparr>answer = [],
     failure = Some (APIRequestFailed (StatusCode resp) (content (Response.Body resp))),
     printed = []\<rparr>"
proof -
  from assms(2) have "StatusCode resp \<noteq> 200" by simp
  with assms(1) show ?thesis by (rule Chat_not_ok)
qed

theorem chat_error_status_witness:
  "roundTrip (mock_World 404 \<lparr>content = ''404 page not found'', read_error = None, last_read = 0\<rparr>)
     test_client hello DefaultChatOptions =
     Inr \<lparr>StatusCode = 404, Body = \<lparr>content = ''404 page not found'', read_error = None, last_read = 0\<rparr>\<rparr>
   \<and> Chat (mock_World 404 \<lparr>content = ''404 page not found'', read_error = None, last_read = 0\<rparr>)
       test_client hello DefaultChatOptions =
     \<lparr>answer = [], failure = Some (APIRequestFailed 404 ''404 page not found''), printed = []\<rparr>"
proof -
  let ?w = "mock_World 404 \<lparr>content = ''404 page not found'', read_error = None, last_read = 0\<rparr>"
  let ?resp = "\<lparr>StatusCode = 404, Body = \<lparr>content = ''404 page not found'', read_error = None, last_read = 0\<rparr>\<rparr>"
  have r: "roundTrip ?w test_client hello DefaultChatOptions = Inr ?resp"
    by (rule mock_roundTrip)
  have s: "StatusCode ?resp \<ge> 400"
    by simp
  from chat_error_status [OF r s, where d = "Decode ?w" and u = "Unmarshal ?w"]
  have "Chat ?w test_client hello DefaultChatOptions =
      \<lparr>answer = [], failure = Some (APIRequestFailed 404 ''404 page not found''), printed = []\<rparr>"
    by (simp only: World_same_decoders Response.simps Reader.simps)
  with r show ?thesis by blast
qed

text \<open>
  C10. When the response received has any status code other than 200 (201, 204 and the
  3xx codes among them), \<open>Chat\<close> fails with the API error that carries the status code
  and the body as read. The body is not decoded: the result is the same whatever the two
  decoders are.
\<close>

theorem chat_only_200_succeeds:
  assumes "roundTrip w c messages opts = Inr resp" and "StatusCode resp \<noteq> 200"
  shows "Chat (w\<lparr>Decode := d, Unmarshal := u\<rparr>) c messages opts =
    \<lparr>answer = [],
     failure = Some (APIRequestFailed (StatusCode resp) (content (Response.Body resp))),
     printed = []\<rparr>"
  using assms by (rule Chat_not_ok)

theorem chat_only_200_succeeds_witness:
  "roundTrip (mock_World 204 \<lparr>content = [], read_error = None, last_read = 0\<rparr>)
     test_client hello (DefaultChatOptions\<lparr>ChatOptions.Stream := False\<rparr>) =
     Inr \<lparr>StatusCode = 204, Body = \<lparr>content = [], read_error = None, last_read = 0\<rparr>\<rparr>
   \<and> Chat (mock_World 204 \<lparr>content = [], read_error = None, last_read = 0\<rparr>)
       test_client hello (DefaultChatOptions\<lparr>ChatOptions.Stream := False\<rparr>) =
     \<lparr>answer = [], failure = Some (APIRequestFailed 204 []), printed = []\<rparr>"
proof -
  let ?w = "mock_World 204 \<lparr>content = [], read_error = None, last_read = 0\<rparr>"
  let ?o = "DefaultChatOptions\<lparr>ChatOptions.Stream := False\<rparr>"
  let ?resp = "\<lparr>StatusCode = 204, Body = \<lparr>content = [], read_error = None, last_read = 0\<rparr>\<rparr>"
  have r: "roundTrip ?w test_client hello ?o = Inr ?resp"
    by (rule mock_roundTrip)
  have s: "StatusCode ?resp \<noteq> 200"
    by simp
  from chat_only_200_succeeds [OF r s, where d = "Decode ?w" and u = "Unmarshal ?w"]
  have "Chat ?w test_client hello ?o =
      \<lparr>answer = [], failure = Some (APIRequestFailed 204 []), printed = []\<rparr>"
    by (simp only: World_same_decoders Response.simps Reader.simps)
  with r show ?thesis by blast
qed

section \<open>The messages of a call\<close>

lemma Chat_messages:
  "OpenAIModel_Chat w m question options =
     Chat w (client_of m)
       (History (apply_options options DefaultChatOptions)
          @ [\<lparr>Message.Role = ''user'', Content = question\<rparr>])
       (apply_options options DefaultChatOptions)"
  by (simp add: OpenAIModel_Chat_def Let_def)

lemma apply_WithHistory: "History (apply_options [WithHistory hs] opts) = hs"
  by (simp add: apply_options_def WithHistory_def)

text \<open>
  C2. \<open>Chat\<close> sends the history of the options, in its order, and then one message of
  role \<open>user\<close> with the question (\<open>Chat_messages\<close>). \<open>ChatWithFile\<close> sends one
  message of role \<open>user\<close> whose content is the file name, the file content and the
  question in the fixed template, and nothing else: called with a history \<open>h # hs\<close> in
  its options, it keeps the history in the options and sends none of it, so what it sends
  is not the history followed by the message.
\<close>

theorem ChatWithFile_sends_no_history:
  "OpenAIModel_ChatWithFile w m question fileName fileContent [WithHistory (h # hs)] =
     Chat w (client_of m)
       [\<lparr>Message.Role = ''user'', Content = file_prompt fileName fileContent question\<rparr>]
       (apply_options [WithHistory (h # hs)]
          (case ModelConfig.DefaultChatOptions (config m) of
             Some defaultOpts \<Rightarrow> defaultOpts
           | None \<Rightarrow> DefaultChatOptions))
   \<and> History (apply_options [WithHistory (h # hs)]
          (case ModelConfig.DefaultChatOptions (config m) of
             Some defaultOpts \<Rightarrow> defaultOpts
           | None \<Rightarrow> DefaultChatOptions)) = h # hs
   \<and> [\<lparr>Message.Role = ''user'', Content = file_prompt fileName fileContent question\<rparr>]
       \<noteq> (h # hs) @ [\<lparr>Message.Role = ''user'',
                          Content = file_prompt fileName fileContent question\<rparr>]"
  by (simp add: OpenAIModel_ChatWithFile_def Let_def apply_WithHistory)

section \<open>The scanner, line by line\<close>

text \<open>
  \<open>ending\<close> is what \<open>Err\<close> returns once the scanner has recorded the end of the
  reader. \<open>ok\<close> holds of every state the scanner is in while the loop runs: no error is
  recorded, or the end of the reader is, and then the rest of the body is in the buffer.
  \<open>run\<close> is the loop of \<open>handleStreamResponse\<close> from a state of the scanner on,
  followed by the return. \<open>onward s r s'\<close> says that \<open>s'\<close> is such a state of the
  same reader, with \<open>r\<close> left to scan.
\<close>

definition ending :: "string option \<Rightarrow> scan_error option" where
  "ending e = (case e of None \<Rightarrow> None | Some x \<Rightarrow> Some (ReadError x))"

definition ok :: "Scanner \<Rightarrow> bool" where
  "ok s = (err s = None \<or> (err s = Some (end_of s) \<and> length (src s) \<le> MaxScanTokenSize))"

definition run :: "(string \<Rightarrow> string + StreamChunk) \<Rightarrow> Scanner \<Rightarrow> Sink \<Rightarrow> Result" where
  "run unmarshal s st =
     (case stream_loop unmarshal s st of (st', s') \<Rightarrow> stream_return st' (Err s'))"

definition onward :: "Scanner \<Rightarrow> string \<Rightarrow> Scanner \<Rightarrow> bool" where
  "onward s r s' =
     (ok s' \<and> src s' = r \<and> src_error s' = src_error s \<and> src_last s' = src_last s)"

lemma Max_pos: "0 < MaxScanTokenSize"
  by (simp add: MaxScanTokenSize_def)

lemma end_of_not_TooLong [simp]: "end_of s \<noteq> ErrTooLong"
  by (simp add: end_of_def split: option.splits)

lemma end_of_update [simp]:
  "end_of (s\<lparr>src := a\<rparr>) = end_of s" "end_of (s\<lparr>tok := b\<rparr>) = end_of s"
  "end_of (s\<lparr>err := c\<rparr>) = end_of s"
  by (simp_all add: end_of_def)

lemma Err_end_of: "err s = Some (end_of s) \<Longrightarrow> Err s = ending (src_error s)"
  by (simp add: Err_def end_of_def ending_def split: option.splits)

lemma Err_None: "err s = None \<Longrightarrow> Err s = None"
  by (simp add: Err_def)

lemma IndexByte_None: "c \<notin> set bs \<Longrightarrow> IndexByte bs c = None"
  by (induction bs) auto

lemma IndexByte_first: "c \<notin> set l \<Longrightarrow> IndexByte (l @ c # r) c = Some (length l)"
  by (induction l) auto

lemma IndexByte_take:
  assumes "c \<notin> set l"
  shows "IndexByte (take n (l @ c # r)) c = (if length l < n then Some (length l) else None)"
proof (cases "length l < n")
  case True
  then have "take n (l @ c # r) = l @ c # take (n - Suc (length l)) r"
    by (simp add: take_Cons')
  with True assms show ?thesis by (simp add: IndexByte_first)
next
  case False
  then have "take n (l @ c # r) = take n l" by simp
  moreover have "c \<notin> set (take n l)" using assms by (auto dest: in_set_takeD)
  ultimately show ?thesis using False by (simp add: IndexByte_None)
qed

lemma ScanLines_line:
  assumes "CHR 0x0A \<notin> set l"
  shows "ScanLines (l @ CHR 0x0A # r) b = (Suc (length l), Some (dropCR l))"
  using assms by (simp add: ScanLines_def IndexByte_first)

lemma ScanLines_take:
  assumes "CHR 0x0A \<notin> set l"
  shows "ScanLines (take n (l @ CHR 0x0A # r)) False =
    (if length l < n then (Suc (length l), Some (dropCR l)) else (0, None))"
proof (cases "length l < n")
  case True
  then have e: "take n (l @ CHR 0x0A # r) = l @ CHR 0x0A # take (n - Suc (length l)) r"
    by (simp add: take_Cons')
  show ?thesis
    unfolding e using True ScanLines_line [OF assms] by simp
next
  case False
  then have "take n (l @ CHR 0x0A # r) = take n l" by simp
  moreover have "CHR 0x0A \<notin> set (take n l)" using assms by (auto dest: in_set_takeD)
  ultimately show ?thesis using False by (simp add: ScanLines_def IndexByte_None)
qed

lemma Scan_line:
  assumes "ok s" and "src s = l @ CHR 0x0A # r" and "CHR 0x0A \<notin> set l"
    and "length l < MaxScanTokenSize"
  shows "\<exists>x. (x = None \<or> (x = Some (end_of s) \<and> length r \<le> MaxScanTokenSize))
           \<and> Scan s = (True, s\<lparr>src := r, tok := dropCR l, err := x\<rparr>)"
proof (cases "err s")
  case None
  let ?n = "length (src s) - src_last s"
  let ?buf = "take MaxScanTokenSize (take ?n (src s))"
  have buf: "?buf = take (min MaxScanTokenSize ?n) (l @ CHR 0x0A # r)"
    by (simp only: assms(2) take_take)
  have F1: "ScanLines ?buf False =
      (if length l < min MaxScanTokenSize ?n then (Suc (length l), Some (dropCR l)) else (0, None))"
    unfolding buf using assms(3) by (rule ScanLines_take)
  have F4: "ScanLines (src s) True = (Suc (length l), Some (dropCR l))"
    unfolding assms(2) using assms(3) by (rule ScanLines_line)
  have F5: "ScanLines (take MaxScanTokenSize (src s)) False = (Suc (length l), Some (dropCR l))"
    unfolding assms(2) using ScanLines_take [OF assms(3), of MaxScanTokenSize r] assms(4) by simp
  have F6: "drop (Suc (length l)) (src s) = r"
    by (simp add: assms(2))
  have up: "s\<lparr>src := r, tok := dropCR l\<rparr> = s\<lparr>src := r, tok := dropCR l, err := None\<rparr>"
    using None by simp
  show ?thesis
  proof (cases "length l < min MaxScanTokenSize ?n")
    case True
    have "Scan s = (True, s\<lparr>src := r, tok := dropCR l\<rparr>)"
      unfolding Scan_def Let_def
      by (simp only: None F1 True F6 option.case prod.case if_True)
    then show ?thesis using up by auto
  next
    case False
    have F2: "(MaxScanTokenSize \<le> length ?buf) = False"
      using False assms(4) by (simp add: assms(2))
    show ?thesis
    proof (cases "length (src s) \<le> MaxScanTokenSize")
      case le: True
      have "Scan s = (True, s\<lparr>err := Some (end_of s)\<rparr>\<lparr>src := r, tok := dropCR l\<rparr>)"
        unfolding Scan_def Let_def
        by (simp only: None F1 False F2 le F4 F6 option.case prod.case if_True if_False)
      then have "Scan s = (True, s\<lparr>src := r, tok := dropCR l, err := Some (end_of s)\<rparr>)"
        by simp
      moreover have "length r \<le> MaxScanTokenSize"
        using le by (simp add: assms(2))
      ultimately show ?thesis by auto
    next
      case gt: False
      have "Scan s = (True, s\<lparr>src := r, tok := dropCR l\<rparr>)"
        unfolding Scan_def Let_def
        by (simp only: None F1 False F2 gt F5 F6 option.case prod.case if_True if_False)
      then show ?thesis using up by auto
    qed
  qed
next
  case (Some e)
  with assms(1) have e: "e = end_of s" and le: "length (src s) \<le> MaxScanTokenSize"
    by (auto simp: ok_def)
  have F4: "ScanLines (src s) True = (Suc (length l), Some (dropCR l))"
    unfolding assms(2) using assms(3) by (rule ScanLines_line)
  have F6: "drop (Suc (length l)) (src s) = r"
    by (simp add: assms(2))
  have "Scan s = (True, s\<lparr>src := r, tok := dropCR l\<rparr>)"
    using Some e
    by (cases "end_of s") (simp_all add: Scan_def F4 F6)
  moreover have "s\<lparr>src := r, tok := dropCR l\<rparr> = s\<lparr>src := r, tok := dropCR l, err := Some (end_of s)\<rparr>"
    using Some e by simp
  moreover have "length r \<le> MaxScanTokenSize"
    using le by (simp add: assms(2))
  ultimately show ?thesis by auto
qed

lemma ScanLines_none:
  assumes "CHR 0x0A \<notin> set b"
  shows "ScanLines b False = (0, None)"
  using assms by (simp add: ScanLines_def IndexByte_None)

lemma ScanLines_final:
  assumes "CHR 0x0A \<notin> set t" and "t \<noteq> []"
  shows "ScanLines t True = (length t, Some (dropCR t))"
  using assms by (simp add: ScanLines_def IndexByte_None)

lemma Scan_long:
  assumes "ok s" and "src s = l @ CHR 0x0A # r" and "CHR 0x0A \<notin> set l"
    and "MaxScanTokenSize \<le> length l"
  shows "Scan s = (False, s\<lparr>err := Some ErrTooLong\<rparr>)"
proof -
  let ?n = "length (src s) - src_last s"
  let ?buf = "take MaxScanTokenSize (take ?n (src s))"
  have big: "\<not> length (src s) \<le> MaxScanTokenSize"
    using assms(4) by (simp add: assms(2))
  with assms(1) have None: "err s = None"
    by (auto simp: ok_def)
  have "?buf = take (min MaxScanTokenSize ?n) l"
    using assms(4) by (simp add: assms(2))
  then have "CHR 0x0A \<notin> set ?buf"
    using assms(3) by (auto dest: in_set_takeD)
  then have F1: "ScanLines ?buf False = (0, None)"
    by (rule ScanLines_none)
  have "take MaxScanTokenSize (src s) = take MaxScanTokenSize l"
    using assms(4) by (simp add: assms(2))
  then have "CHR 0x0A \<notin> set (take MaxScanTokenSize (src s))"
    using assms(3) by (auto dest: in_set_takeD)
  then have F5: "ScanLines (take MaxScanTokenSize (src s)) False = (0, None)"
    by (rule ScanLines_none)
  show ?thesis
    unfolding Scan_def Let_def
    by (simp only: None F1 F5 big option.case prod.case if_True if_False if_cancel)
qed

lemma Scan_last:
  assumes "ok s" and "CHR 0x0A \<notin> set (src s)" and "src s \<noteq> []"
    and "length (src s) < MaxScanTokenSize"
  shows "Scan s = (True, s\<lparr>src := [], tok := dropCR (src s), err := Some (end_of s)\<rparr>)"
proof (cases "err s")
  case None
  let ?n = "length (src s) - src_last s"
  let ?buf = "take MaxScanTokenSize (take ?n (src s))"
  have "CHR 0x0A \<notin> set ?buf"
    using assms(2) by (auto dest: in_set_takeD)
  then have F1: "ScanLines ?buf False = (0, None)"
    by (rule ScanLines_none)
  have F2: "(MaxScanTokenSize \<le> length ?buf) = False"
    using assms(4) by simp
  have le: "length (src s) \<le> MaxScanTokenSize"
    using assms(4) by simp
  have F4: "ScanLines (src s) True = (length (src s), Some (dropCR (src s)))"
    using assms(2,3) by (rule ScanLines_final)
  have "Scan s = (True, s\<lparr>err := Some (end_of s)\<rparr>\<lparr>src := drop (length (src s)) (src s),
      tok := dropCR (src s)\<rparr>)"
    unfolding Scan_def Let_def
    by (simp only: None F1 F2 le F4 option.case prod.case if_True if_False)
  then show ?thesis by simp
next
  case (Some e)
  with assms(1) have e: "e = end_of s"
    by (auto simp: ok_def)
  have F4: "ScanLines (src s) True = (length (src s), Some (dropCR (src s)))"
    using assms(2,3) by (rule ScanLines_final)
  have "Scan s = (True, s\<lparr>src := [], tok := dropCR (src s)\<rparr>)"
    using Some e by (cases "end_of s") (simp_all add: Scan_def F4)
  moreover have "s\<lparr>src := [], tok := dropCR (src s)\<rparr>
      = s\<lparr>src := [], tok := dropCR (src s), err := Some (end_of s)\<rparr>"
    using Some e by simp
  ultimately show ?thesis by simp
qed

lemma Scan_empty:
  assumes "ok s" and "src s = []"
  shows "Scan s = (False, s\<lparr>err := Some (end_of s)\<rparr>)"
proof (cases "err s")
  case None
  then show ?thesis
    using assms(2) Max_pos by (simp add: Scan_def ScanLines_def)
next
  case (Some e)
  with assms(1) have e: "e = end_of s"
    by (auto simp: ok_def)
  have "Scan s = (False, s\<lparr>src := []\<rparr>)"
    using Some e assms(2) by (cases "end_of s") (simp_all add: Scan_def ScanLines_def)
  moreover have "s\<lparr>src := []\<rparr> = s\<lparr>err := Some (end_of s)\<rparr>"
    using Some e assms(2) by simp
  ultimately show ?thesis by simp
qed

lemma ok_NewScanner: "ok (NewScanner r)"
  by (simp add: ok_def NewScanner_def)

lemma handleStreamResponse_run:
  "handleStreamResponse unmarshal body =
     run unmarshal (NewScanner body) \<lparr>fullContent = [], stdout = []\<rparr>"
  by (simp add: handleStreamResponse_def run_def)

lemma onward_refl: "ok s \<Longrightarrow> onward s (src s) s"
  by (simp add: onward_def)

lemma onward_trans: "onward s r s' \<Longrightarrow> onward s' r' s'' \<Longrightarrow> onward s r' s''"
  by (simp add: onward_def)

lemma onward_Err:
  assumes "onward s r s'"
  shows "Err s' = None \<or> Err s' = ending (src_error s)"
  using assms by (auto simp: onward_def ok_def Err_None Err_end_of)

lemma onward_Err_EOF:
  assumes "onward s r s'" and "src_error s = None"
  shows "Err s' = None"
  using onward_Err [OF assms(1)] assms(2) by (simp add: ending_def)

lemma run_line:
  assumes "ok s" and "src s = l @ CHR 0x0A # r" and "CHR 0x0A \<notin> set l"
    and "length l < MaxScanTokenSize"
  shows "\<exists>s'. onward s r s' \<and>
    run unmarshal s st =
      (case stream_line unmarshal (dropCR l) st of
         (Continue, st') \<Rightarrow> run unmarshal s' st'
       | (Break, st') \<Rightarrow> stream_return st' (Err s'))"
proof -
  obtain x where x: "x = None \<or> (x = Some (end_of s) \<and> length r \<le> MaxScanTokenSize)"
    and sc: "Scan s = (True, s\<lparr>src := r, tok := dropCR l, err := x\<rparr>)"
    using Scan_line [OF assms] by blast
  let ?s' = "s\<lparr>src := r, tok := dropCR l, err := x\<rparr>"
  have on: "onward s r ?s'"
    using x by (auto simp: onward_def ok_def)
  have "run unmarshal s st =
      (case stream_line unmarshal (dropCR l) st of
         (Continue, st') \<Rightarrow> run unmarshal ?s' st'
       | (Break, st') \<Rightarrow> stream_return st' (Err ?s'))"
    unfolding run_def
    by (subst stream_loop.simps)
       (simp add: sc Text_def del: Scanner.simps split: prod.splits flow.splits)
  with on show ?thesis by blast
qed

lemma run_long:
  assumes "ok s" and "src s = l @ CHR 0x0A # r" and "CHR 0x0A \<notin> set l"
    and "MaxScanTokenSize \<le> length l"
  shows "run unmarshal s st = stream_return st (Some ErrTooLong)"
  unfolding run_def
  by (subst stream_loop.simps) (simp add: Scan_long [OF assms] Err_def)

lemma run_end:
  assumes "ok s" and "CHR 0x0A \<notin> set (src s)" and "length (src s) < MaxScanTokenSize"
  shows "run unmarshal s st =
    stream_return (if src s = [] then st else snd (stream_line unmarshal (dropCR (src s)) st))
      (ending (src_error s))"
proof (cases "src s = []")
  case True
  have "Err (s\<lparr>err := Some (end_of s)\<rparr>) = ending (src_error s)"
    using Err_end_of [of "s\<lparr>err := Some (end_of s)\<rparr>"] by simp
  then show ?thesis
    unfolding run_def
    by (subst stream_loop.simps) (simp add: Scan_empty [OF assms(1) True] True del: Scanner.simps)
next
  case False
  let ?s' = "s\<lparr>src := [], tok := dropCR (src s), err := Some (end_of s)\<rparr>"
  have sc: "Scan s = (True, ?s')"
    using assms False by (intro Scan_last) simp_all
  have ok': "ok ?s'"
    by (simp add: ok_def)
  have "Scan ?s' = (False, ?s'\<lparr>err := Some (end_of ?s')\<rparr>)"
    using ok' by (rule Scan_empty) simp
  then have sc': "Scan ?s' = (False, ?s')"
    by simp
  have E: "Err ?s' = ending (src_error s)"
    using Err_end_of [of ?s'] by simp
  obtain f st' where sl: "stream_line unmarshal (dropCR (src s)) st = (f, st')"
    by (cases "stream_line unmarshal (dropCR (src s)) st")
  have "stream_loop unmarshal ?s' st' = (st', ?s')"
    by (subst stream_loop.simps) (simp add: sc' del: Scanner.simps)
  then have "stream_loop unmarshal s st = (st', ?s')"
    by (subst stream_loop.simps)
       (simp add: sc Text_def sl del: Scanner.simps split: flow.splits)
  then show ?thesis
    unfolding run_def using E False by (simp add: sl del: Scanner.simps)
qed

section \<open>The stream decoder, line by line\<close>

text \<open>
  \<open>sse_lines ls\<close> is the bytes of the lines \<open>ls\<close>, each followed by its newline.
  \<open>feed\<close> is the decoder's progress over such lines, one \<open>Scan\<close> and one turn of the
  loop for each: it is still \<open>Reading\<close>, with the text accumulated, or it has
  \<open>Returned\<close>, at the end marker or at a line too long for the scanner. The result it
  gives at the marker is the one of a body whose read does not fail. The text of that
  result is the text of the decoder's result however the body ends (\<open>run_lines\<close>); the
  error is not, when the reader hands its error over with the last bytes and the marker
  is among them (\<open>run_at_once\<close>).
\<close>

definition sse_lines :: "string list \<Rightarrow> string" where
  "sse_lines ls = concat (map (\<lambda>l. l @ [CHR 0x0A]) ls)"

datatype progress = Reading Sink | Returned Result

fun feed :: "(string \<Rightarrow> string + StreamChunk) \<Rightarrow> string list \<Rightarrow> Sink \<Rightarrow> progress" where
  "feed unmarshal [] st = Reading st"
| "feed unmarshal (l # ls) st =
     (if MaxScanTokenSize \<le> length l then Returned (stream_return st (Some ErrTooLong))
      else case stream_line unmarshal (dropCR l) st of
             (Continue, st') \<Rightarrow> feed unmarshal ls st'
           | (Break, st') \<Rightarrow> Returned (stream_return st' None))"

lemma answer_stream_return [simp]: "answer (stream_return st x) = fullContent st"
  by (simp add: stream_return_def split: option.splits)

lemma run_lines:
  assumes "ok s" and "src s = sse_lines ls @ r" and "\<forall>l\<in>set ls. CHR 0x0A \<notin> set l"
  shows "case feed unmarshal ls st of
           Reading st' \<Rightarrow> \<exists>s'. onward s r s' \<and> run unmarshal s st = run unmarshal s' st'
         | Returned res \<Rightarrow>
             answer (run unmarshal s st) = answer res
             \<and> (src_error s = None \<longrightarrow> run unmarshal s st = res)"
  using assms
proof (induction ls arbitrary: s st)
  case Nil
  then have "onward s r s"
    by (simp add: onward_def sse_lines_def)
  then show ?case by auto
next
  case (Cons l ls)
  have nl: "CHR 0x0A \<notin> set l" and rest: "\<forall>l\<in>set ls. CHR 0x0A \<notin> set l"
    using Cons.prems(3) by simp_all
  have split: "src s = l @ CHR 0x0A # (sse_lines ls @ r)"
    using Cons.prems(2) by (simp add: sse_lines_def)
  show ?case
  proof (cases "MaxScanTokenSize \<le> length l")
    case True
    then show ?thesis
      using run_long [OF Cons.prems(1) split nl True, of unmarshal st] by simp
  next
    case False
    then have short: "length l < MaxScanTokenSize" by simp
    obtain s1 where on: "onward s (sse_lines ls @ r) s1"
      and step: "run unmarshal s st =
        (case stream_line unmarshal (dropCR l) st of
           (Continue, st') \<Rightarrow> run unmarshal s1 st'
         | (Break, st') \<Rightarrow> stream_return st' (Err s1))"
      using run_line [OF Cons.prems(1) split nl short, of unmarshal st] by blast
    obtain f st1 where sl: "stream_line unmarshal (dropCR l) st = (f, st1)"
      by (cases "stream_line unmarshal (dropCR l) st")
    show ?thesis
    proof (cases f)
      case Break
      have "src_error s = None \<longrightarrow> Err s1 = None"
        using onward_Err_EOF [OF on] by simp
      then show ?thesis
        using False step by (auto simp: sl Break)
    next
      case Continue
      have ok1: "ok s1" and src1: "src s1 = sse_lines ls @ r" and e1: "src_error s1 = src_error s"
        using on by (simp_all add: onward_def)
      have st: "run unmarshal s st = run unmarshal s1 st1"
        using step by (simp add: sl Continue)
      have fd: "feed unmarshal (l # ls) st = feed unmarshal ls st1"
        using False by (simp add: sl Continue)
      show ?thesis
      proof (cases "feed unmarshal ls st1")
        case (Reading st')
        then obtain s' where "onward s1 r s'" and "run unmarshal s1 st1 = run unmarshal s' st'"
          using Cons.IH [OF ok1 src1 rest, of st1] by auto
        then have "onward s r s' \<and> run unmarshal s st = run unmarshal s' st'"
          using on st by (auto intro: onward_trans)
        then show ?thesis
          unfolding fd Reading by auto
      next
        case (Returned res)
        then show ?thesis
          using Cons.IH [OF ok1 src1 rest, of st1] st e1 unfolding fd by simp
      qed
    qed
  qed
qed

lemma run_lines_Reading:
  assumes "ok s" and "src s = sse_lines ls @ r" and "\<forall>l\<in>set ls. CHR 0x0A \<notin> set l"
    and "feed unmarshal ls st = Reading st'"
  shows "\<exists>s'. onward s r s' \<and> run unmarshal s st = run unmarshal s' st'"
  using run_lines [OF assms(1-3), of unmarshal st] assms(4) by simp

lemma run_lines_Returned:
  assumes "ok s" and "src s = sse_lines ls @ r" and "\<forall>l\<in>set ls. CHR 0x0A \<notin> set l"
    and "feed unmarshal ls st = Returned res"
  shows "answer (run unmarshal s st) = answer res
    \<and> (src_error s = None \<longrightarrow> run unmarshal s st = res)"
  using run_lines [OF assms(1-3), of unmarshal st] assms(4) by simp

text \<open>
  A body read to its end: lines that end in a newline, none of them the marker or too
  long, and a rest \<open>t\<close> without a newline, which the scanner hands out as the final
  line when it is not empty. The decoder returns with what the reader ended with.
\<close>

lemma run_body:
  assumes "ok s" and "src s = sse_lines ls @ t" and "\<forall>l\<in>set ls. CHR 0x0A \<notin> set l"
    and "CHR 0x0A \<notin> set t" and "length t < MaxScanTokenSize"
    and "feed unmarshal ls st = Reading st'"
  shows "run unmarshal s st =
    stream_return (if t = [] then st' else snd (stream_line unmarshal (dropCR t) st'))
      (ending (src_error s))"
proof -
  obtain s' where on: "onward s t s'" and r: "run unmarshal s st = run unmarshal s' st'"
    using run_lines_Reading [OF assms(1-3,6)] by blast
  have "ok s'" "src s' = t" "src_error s' = src_error s"
    using on by (simp_all add: onward_def)
  then show ?thesis
    using run_end [of s' unmarshal st'] assms(4,5) r by simp
qed

lemma feed_append:
  "feed unmarshal (ls @ ls') st =
     (case feed unmarshal ls st of
        Reading st' \<Rightarrow> feed unmarshal ls' st'
      | Returned res \<Rightarrow> Returned res)"
  by (induction ls arbitrary: st) (auto split: prod.splits flow.splits)

lemma sse_lines_append: "sse_lines (ls @ ls') = sse_lines ls @ sse_lines ls'"
  by (simp add: sse_lines_def)

lemma sse_lines_single: "sse_lines [l] = l @ [CHR 0x0A]"
  by (simp add: sse_lines_def)

text \<open>
  A reader that hands over the whole body and its error in one \<open>Read\<close>: the scanner
  records the error at once and hands out the buffered lines, and the decoder, stopping
  at the marker, returns the error.
\<close>

lemma Scan_ended:
  assumes "err s = Some (ReadError x)" and "src s = l @ CHR 0x0A # r" and "CHR 0x0A \<notin> set l"
  shows "Scan s = (True, s\<lparr>src := r, tok := dropCR l\<rparr>)"
  using assms(1,2) by (simp add: Scan_def ScanLines_line [OF assms(3)])

lemma run_ended:
  assumes "err s = Some (ReadError x)" and "length (src s) \<le> MaxScanTokenSize"
    and "src s = sse_lines ls @ r" and "\<forall>l\<in>set ls. CHR 0x0A \<notin> set l"
    and "feed unmarshal ls st = Returned res"
  shows "run unmarshal s st =
    \<lparr>answer = answer res, failure = Some (ScanFailed (ReadError x)),
     printed = butlast (printed res)\<rparr>"
  using assms
proof (induction ls arbitrary: s st)
  case Nil
  then show ?case by simp
next
  case (Cons l ls)
  have nl: "CHR 0x0A \<notin> set l" and rest: "\<forall>l\<in>set ls. CHR 0x0A \<notin> set l"
    using Cons.prems(4) by simp_all
  have split: "src s = l @ CHR 0x0A # (sse_lines ls @ r)"
    using Cons.prems(3) by (simp add: sse_lines_def)
  have short: "\<not> MaxScanTokenSize \<le> length l"
    using Cons.prems(2) split by simp
  let ?s = "s\<lparr>src := sse_lines ls @ r, tok := dropCR l\<rparr>"
  have sc: "Scan s = (True, ?s)"
    using Cons.prems(1) split nl by (rule Scan_ended)
  have step: "run unmarshal s st =
      (case stream_line unmarshal (dropCR l) st of
         (Continue, st') \<Rightarrow> run unmarshal ?s st'
       | (Break, st') \<Rightarrow> stream_return st' (Err ?s))"
    unfolding run_def
    by (subst stream_loop.simps)
       (simp add: sc Text_def del: Scanner.simps split: prod.splits flow.splits)
  have e: "Err ?s = Some (ReadError x)"
    using Cons.prems(1) by (simp add: Err_def)
  obtain f st1 where sl: "stream_line unmarshal (dropCR l) st = (f, st1)"
    by (cases "stream_line unmarshal (dropCR l) st")
  show ?case
  proof (cases f)
    case Break
    then have "res = stream_return st1 None"
      using Cons.prems(5) short sl by simp
    then show ?thesis
      using step sl Break e by (simp add: stream_return_def)
  next
    case Continue
    then have fd: "feed unmarshal ls st1 = Returned res"
      using Cons.prems(5) short sl by simp
    have "run unmarshal ?s st1 =
        \<lparr>answer = answer res, failure = Some (ScanFailed (ReadError x)),
         printed = butlast (printed res)\<rparr>"
      using Cons.prems(1,2) split rest fd by (intro Cons.IH) simp_all
    then show ?thesis
      using step sl Continue by simp
  qed
qed

lemma Scan_at_once:
  assumes "err s = None" and "src_last s = length (src s)"
    and "length (src s) \<le> MaxScanTokenSize"
    and "src s = l @ CHR 0x0A # r" and "CHR 0x0A \<notin> set l"
  shows "Scan s = (True, s\<lparr>src := r, tok := dropCR l, err := Some (end_of s)\<rparr>)"
proof -
  have q: "take (length (src s) - src_last s) (src s) = []"
    using assms(2) by simp
  have e: "ScanLines [] False = (0, None)"
    by (simp add: ScanLines_def)
  have l: "ScanLines (src s) True = (Suc (length l), Some (dropCR l))"
    unfolding assms(4) using assms(5) by (rule ScanLines_line)
  have d: "drop (Suc (length l)) (src s) = r"
    by (simp add: assms(4))
  show ?thesis
    unfolding Scan_def Let_def q
    using assms(1,3) Max_pos by (simp add: e l d)
qed

lemma run_at_once:
  assumes "err s = None" and "src_last s = length (src s)"
    and "length (src s) \<le> MaxScanTokenSize" and "src_error s = Some x"
    and "src s = sse_lines ls @ r" and "\<forall>l\<in>set ls. CHR 0x0A \<notin> set l"
    and "feed unmarshal ls st = Returned res"
  shows "run unmarshal s st =
    \<lparr>answer = answer res, failure = Some (ScanFailed (ReadError x)),
     printed = butlast (printed res)\<rparr>"
proof (cases ls)
  case Nil
  then show ?thesis using assms(7) by simp
next
  case (Cons l ls')
  let ?s = "s\<lparr>err := Some (end_of s)\<rparr>"
  have nl: "CHR 0x0A \<notin> set l"
    using assms(6) Cons by simp
  have split: "src s = l @ CHR 0x0A # (sse_lines ls' @ r)"
    using assms(5) Cons by (simp add: sse_lines_def)
  have eo: "end_of s = ReadError x"
    using assms(4) by (simp add: end_of_def)
  have "Scan ?s = (True, ?s\<lparr>src := sse_lines ls' @ r, tok := dropCR l\<rparr>)"
    using eo split nl by (intro Scan_ended [where x = x]) simp_all
  then have "Scan ?s = Scan s"
    using Scan_at_once [OF assms(1-3) split nl] by simp
  then have "stream_loop unmarshal s st = stream_loop unmarshal ?s st"
    using stream_loop.simps [of unmarshal s st] stream_loop.simps [of unmarshal ?s st]
    by (simp only:)
  then have "run unmarshal s st = run unmarshal ?s st"
    by (simp add: run_def)
  also have "\<dots> = \<lparr>answer = answer res, failure = Some (ScanFailed (ReadError x)),
     printed = butlast (printed res)\<rparr>"
    using eo assms(3,5,6,7) by (intro run_ended) simp_all
  finally show ?thesis .
qed

lemma dropCR_cases: "l = dropCR l \<or> l = dropCR l @ [CHR 0x0D]"
proof (cases "length l > 0 \<and> l ! (length l - 1) = CHR 0x0D")
  case True
  then have "l \<noteq> []" by auto
  then have "l = butlast l @ [last l]" by simp
  moreover have "last l = CHR 0x0D" using True \<open>l \<noteq> []\<close> by (simp add: last_conv_nth)
  moreover have "dropCR l = butlast l" using True by (simp add: dropCR_def butlast_conv_take)
  ultimately show ?thesis by simp
next
  case False
  then show ?thesis by (auto simp: dropCR_def)
qed

lemma dropCR_length: "length l \<le> Suc (length (dropCR l))"
  by (simp add: dropCR_def)

lemma dropCR_no_newline: "CHR 0x0A \<notin> set (dropCR l) \<Longrightarrow> CHR 0x0A \<notin> set l"
proof -
  assume a: "CHR 0x0A \<notin> set (dropCR l)"
  from dropCR_cases [of l] show ?thesis
  proof
    assume "l = dropCR l"
    with a show ?thesis by simp
  next
    assume b: "l = dropCR l @ [CHR 0x0D]"
    have "set l = set (dropCR l) \<union> {CHR 0x0D}"
      by (subst b) simp
    with a show ?thesis by simp
  qed
qed

lemma HasPrefix_append [simp]: "HasPrefix (p @ s) p"
  by (simp add: HasPrefix_def)

lemma TrimPrefix_append [simp]: "TrimPrefix (p @ s) p = s"
  by (simp add: TrimPrefix_def)

lemma HasPrefix_split: "HasPrefix s p \<Longrightarrow> s = p @ TrimPrefix s p"
  by (auto simp: HasPrefix_def TrimPrefix_def) (metis append_take_drop_id)

lemma stream_line_done: "stream_line unmarshal ''data: [DONE]'' st = (Break, st)"
  by (simp add: stream_line_def HasPrefix_def TrimPrefix_def)

lemma stream_line_other: "\<not> HasPrefix line ''data: '' \<Longrightarrow> stream_line unmarshal line st = (Continue, st)"
  by (simp add: stream_line_def)

lemma stream_line_unparsable:
  assumes "p \<noteq> ''[DONE]''" and "unmarshal p = Inl e"
  shows "stream_line unmarshal (''data: '' @ p) st = (Continue, st)"
proof -
  have "HasPrefix (''data: '' @ p) ''data: ''" by (rule HasPrefix_append)
  moreover have "TrimPrefix (''data: '' @ p) ''data: '' = p" by (rule TrimPrefix_append)
  ultimately show ?thesis
    using assms by (simp add: stream_line_def del: append.simps)
qed

lemma stream_line_chunk:
  assumes "p \<noteq> ''[DONE]''" and "unmarshal p = Inr chunk"
  shows "stream_line unmarshal (''data: '' @ p) st =
    (Continue,
     if StreamChunk.Choices chunk \<noteq> []
     then st\<lparr>fullContent := fullContent st @ Delta.Content (Delta (hd (StreamChunk.Choices chunk))),
             stdout := stdout st @ Delta.Content (Delta (hd (StreamChunk.Choices chunk)))\<rparr>
     else st)"
proof -
  have "HasPrefix (''data: '' @ p) ''data: ''" by (rule HasPrefix_append)
  moreover have "TrimPrefix (''data: '' @ p) ''data: '' = p" by (rule TrimPrefix_append)
  ultimately show ?thesis
    using assms by (simp add: stream_line_def hd_conv_nth Let_def del: append.simps)
qed

lemma stream_line_Break:
  assumes "stream_line unmarshal line st = (Break, st')"
  shows "line = ''data: [DONE]''"
proof -
  from assms have p: "HasPrefix line ''data: ''"
    by (auto simp: stream_line_def split: if_splits)
  with assms have "TrimPrefix line ''data: '' = ''[DONE]''"
    by (auto simp: stream_line_def Let_def split: if_splits sum.splits)
  with HasPrefix_split [OF p] show ?thesis by simp
qed

lemma HasPrefix_dropCR: "HasPrefix (dropCR l) p \<Longrightarrow> HasPrefix l p"
  by (auto simp: HasPrefix_def dropCR_def split: if_splits)

lemma feed_skip:
  assumes "\<forall>x\<in>set ls. length x < MaxScanTokenSize \<and> \<not> HasPrefix x ''data: ''"
  shows "feed unmarshal ls st = Reading st"
  using assms
proof (induction ls)
  case Nil
  show ?case by simp
next
  case (Cons l ls)
  then have "\<not> HasPrefix (dropCR l) ''data: ''"
    using HasPrefix_dropCR by auto
  then have "stream_line unmarshal (dropCR l) st = (Continue, st)"
    by (rule stream_line_other)
  with Cons show ?case by simp
qed

lemma feed_no_stop:
  assumes "\<forall>x\<in>set ls. length x < MaxScanTokenSize \<and> dropCR x \<noteq> ''data: [DONE]''"
  shows "\<exists>st'. feed unmarshal ls st = Reading st'"
  using assms
proof (induction ls arbitrary: st)
  case Nil
  show ?case by simp
next
  case (Cons l ls)
  obtain f st1 where sl: "stream_line unmarshal (dropCR l) st = (f, st1)"
    by (cases "stream_line unmarshal (dropCR l) st")
  have "f = Continue"
  proof (cases f)
    case Break
    with sl have "dropCR l = ''data: [DONE]''" by (auto dest: stream_line_Break)
    with Cons.prems show ?thesis by simp
  qed
  moreover obtain st' where "feed unmarshal ls st1 = Reading st'"
    using Cons.IH [of st1] Cons.prems by auto
  ultimately show ?case
    using Cons.prems sl by simp
qed

text \<open>
  Every body is some lines that end in a newline, followed by what comes after the last
  newline: the theorems of this section, stated on \<open>sse_lines ls @ t\<close>, are about
  every body.
\<close>

lemma body_is_lines:
  "\<exists>ls t. (\<forall>x\<in>set ls. CHR 0x0A \<notin> set x) \<and> CHR 0x0A \<notin> set t \<and> b = sse_lines ls @ t"
proof (induction b)
  case Nil
  have "(\<forall>x\<in>set []. CHR 0x0A \<notin> set x) \<and> CHR 0x0A \<notin> set [] \<and> [] = sse_lines [] @ []"
    by (simp add: sse_lines_def)
  then show ?case by blast
next
  case (Cons c b)
  then obtain ls t where
    h: "\<forall>x\<in>set ls. CHR 0x0A \<notin> set x" "CHR 0x0A \<notin> set t" "b = sse_lines ls @ t"
    by blast
  show ?case
  proof (cases "c = CHR 0x0A")
    case True
    have "(\<forall>x\<in>set ([] # ls). CHR 0x0A \<notin> set x) \<and> CHR 0x0A \<notin> set t
        \<and> c # b = sse_lines ([] # ls) @ t"
      using h True by (simp add: sse_lines_def)
    then show ?thesis by blast
  next
    case False
    show ?thesis
    proof (cases ls)
      case Nil
      have "(\<forall>x\<in>set []. CHR 0x0A \<notin> set x) \<and> CHR 0x0A \<notin> set (c # t)
          \<and> c # b = sse_lines [] @ (c # t)"
        using h False Nil by (simp add: sse_lines_def)
      then show ?thesis by blast
    next
      case (Cons l ls')
      have "(\<forall>x\<in>set ((c # l) # ls'). CHR 0x0A \<notin> set x) \<and> CHR 0x0A \<notin> set t
          \<and> c # b = sse_lines ((c # l) # ls') @ t"
        using h False Cons by (simp add: sse_lines_def)
      then show ?thesis by blast
    qed
  qed
qed

section \<open>Frames\<close>

text \<open>
  A frame of the wire protocol is the line \<open>data: \<close> followed by a payload, and a blank
  line. \<open>carries unmarshal payload d\<close> says that the payload is one line of JSON (it has
  no line break), is not the end marker, and decodes to a chunk with at least one choice
  whose first delta has the content \<open>d\<close> (empty when the delta has no content).
  \<open>fits payload\<close> says that the line of the frame is shorter than
  \<open>MaxScanTokenSize\<close> bytes.
\<close>

definition sse_frame :: "string \<Rightarrow> string" where
  "sse_frame payload = ''data: '' @ payload @ [CHR 0x0A, CHR 0x0A]"

definition carries :: "(string \<Rightarrow> string + StreamChunk) \<Rightarrow> string \<Rightarrow> string \<Rightarrow> bool" where
  "carries unmarshal payload d =
     (CHR 0x0A \<notin> set payload \<and> CHR 0x0D \<notin> set payload \<and> payload \<noteq> ''[DONE]''
      \<and> (case unmarshal payload of
            Inl e \<Rightarrow> False
          | Inr chunk \<Rightarrow>
              StreamChunk.Choices chunk \<noteq> []
              \<and> Delta.Content (Delta (hd (StreamChunk.Choices chunk))) = d))"

definition fits :: "string \<Rightarrow> bool" where
  "fits payload = (length (''data: '' @ payload) < MaxScanTokenSize)"

definition add_text :: "Sink \<Rightarrow> string \<Rightarrow> Sink" where
  "add_text st d = st\<lparr>fullContent := fullContent st @ d, stdout := stdout st @ d\<rparr>"

lemma add_text_Nil [simp]: "add_text st [] = st"
  by (simp add: add_text_def)

lemma add_text_append [simp]: "add_text (add_text st a) b = add_text st (a @ b)"
  by (simp add: add_text_def)

lemma dropCR_data:
  assumes "CHR 0x0D \<notin> set p"
  shows "dropCR (''data: '' @ p) = ''data: '' @ p"
proof (cases "p = []")
  case True
  then show ?thesis by (simp add: dropCR_def)
next
  case False
  then have "last (''data: '' @ p) = last p" by simp
  moreover have "last p \<noteq> CHR 0x0D" using assms False last_in_set by metis
  moreover have "(''data: '' @ p) ! (length (''data: '' @ p) - 1) = last (''data: '' @ p)"
    by (subst last_conv_nth) simp_all
  ultimately show ?thesis
    unfolding dropCR_def by (simp del: append.simps)
qed

text \<open>The decoder on a body, from the progress over its lines.\<close>

lemma hsr_Returned:
  assumes "\<forall>l\<in>set ls. CHR 0x0A \<notin> set l"
    and "feed unmarshal ls \<lparr>fullContent = [], stdout = []\<rparr> = Returned res"
    and "content b = sse_lines ls @ r"
  shows "answer (handleStreamResponse unmarshal b) = answer res
    \<and> (read_error b = None \<longrightarrow> handleStreamResponse unmarshal b = res)"
  using run_lines_Returned [OF ok_NewScanner _ assms(1,2), of b r] assms(3)
  by (simp add: handleStreamResponse_run NewScanner_def)

lemma hsr_body:
  assumes "\<forall>l\<in>set ls. CHR 0x0A \<notin> set l"
    and "CHR 0x0A \<notin> set t" and "length t < MaxScanTokenSize"
    and "feed unmarshal ls \<lparr>fullContent = [], stdout = []\<rparr> = Reading st'"
    and "content b = sse_lines ls @ t"
  shows "handleStreamResponse unmarshal b =
    stream_return (if t = [] then st' else snd (stream_line unmarshal (dropCR t) st'))
      (ending (read_error b))"
  using run_body [OF ok_NewScanner _ assms(1,2,3,4), of b] assms(5)
  by (simp add: handleStreamResponse_run NewScanner_def)

definition frame_lines :: "string \<Rightarrow> string list" where
  "frame_lines payload = [''data: '' @ payload, []]"

lemma sse_frame_lines: "sse_frame p = sse_lines (frame_lines p)"
  by (simp add: sse_frame_def sse_lines_def frame_lines_def)

lemma sse_frames_lines: "concat (map sse_frame ps) = sse_lines (concat (map frame_lines ps))"
  by (induction ps) (simp_all add: sse_lines_def sse_frame_lines)

lemma frame_lines_nl:
  assumes "carries unmarshal p d"
  shows "\<forall>l\<in>set (frame_lines p). CHR 0x0A \<notin> set l"
  using assms by (simp add: frame_lines_def carries_def)

lemma frames_lines_nl:
  assumes "list_all2 (carries unmarshal) ps ds"
  shows "\<forall>l\<in>set (concat (map frame_lines ps)). CHR 0x0A \<notin> set l"
  using assms
proof (induction ps ds rule: list_all2_induct)
  case Nil
  show ?case by simp
next
  case (Cons p ps d ds)
  then show ?case using frame_lines_nl [of unmarshal p d] by auto
qed

lemma feed_frame:
  assumes "carries unmarshal p d" and "fits p"
  shows "feed unmarshal (frame_lines p @ ls) st = feed unmarshal ls (add_text st d)"
proof -
  let ?l = "''data: '' @ p"
  obtain chunk where c: "unmarshal p = Inr chunk" "StreamChunk.Choices chunk \<noteq> []"
      "Delta.Content (Delta (hd (StreamChunk.Choices chunk))) = d"
    using assms(1) by (auto simp: carries_def split: sum.splits)
  have short: "\<not> MaxScanTokenSize \<le> length ?l"
    using assms(2) by (simp add: fits_def)
  have cr: "dropCR ?l = ?l"
    using assms(1) by (intro dropCR_data) (simp add: carries_def)
  have line: "stream_line unmarshal ?l st = (Continue, add_text st d)"
    using stream_line_chunk [of p unmarshal chunk st] assms(1) c
    by (simp add: carries_def add_text_def)
  have blank: "stream_line unmarshal [] st' = (Continue, st')" for st'
    by (simp add: stream_line_def)
  have empty: "dropCR [] = []"
    by (simp add: dropCR_def)
  have "feed unmarshal (?l # [] # ls) st = feed unmarshal ls (add_text st d)"
    using short Max_pos by (simp only: feed.simps cr line empty blank) simp
  then show ?thesis
    by (simp add: frame_lines_def)
qed

lemma feed_frames:
  assumes "list_all2 (carries unmarshal) ps ds" and "list_all fits ps"
  shows "feed unmarshal (concat (map frame_lines ps) @ ls) st =
    feed unmarshal ls (add_text st (concat ds))"
  using assms
proof (induction ps ds arbitrary: st rule: list_all2_induct)
  case Nil
  show ?case by simp
next
  case (Cons p ps d ds)
  have "feed unmarshal (concat (map frame_lines (p # ps)) @ ls) st
      = feed unmarshal (frame_lines p @ (concat (map frame_lines ps) @ ls)) st"
    by simp
  also have "\<dots> = feed unmarshal (concat (map frame_lines ps) @ ls) (add_text st d)"
    using Cons by (intro feed_frame) simp_all
  also have "\<dots> = feed unmarshal ls (add_text (add_text st d) (concat ds))"
    using Cons by simp
  finally show ?case by simp
qed

lemma feed_done:
  assumes "dropCR l = ''data: [DONE]''"
  shows "feed unmarshal (l # ls) st = Returned (stream_return st None)"
proof -
  have "length l \<le> 13"
    using dropCR_length [of l] by (simp add: assms)
  then have "\<not> MaxScanTokenSize \<le> length l"
    by (simp add: MaxScanTokenSize_def)
  then show ?thesis
    by (simp add: assms stream_line_done)
qed

lemma dropCR_done: "dropCR ''data: [DONE]'' = ''data: [DONE]''"
  by (simp add: dropCR_def)

lemma feed_frames_done:
  assumes "list_all2 (carries unmarshal) ps ds" and "carries unmarshal pf []"
    and "list_all fits ps" and "fits pf"
  shows "feed unmarshal (concat (map frame_lines ps) @ frame_lines pf @ [''data: [DONE]''])
           \<lparr>fullContent = [], stdout = []\<rparr>
         = Returned \<lparr>answer = concat ds, failure = None, printed = concat ds @ [CHR 0x0A]\<rparr>"
proof -
  let ?st = "\<lparr>fullContent = [], stdout = []\<rparr>"
  let ?ls = "concat (map frame_lines ps) @ frame_lines pf @ [''data: [DONE]'']"
  let ?res = "\<lparr>answer = concat ds, failure = None, printed = concat ds @ [CHR 0x0A]\<rparr>"
  have "feed unmarshal ?ls ?st = feed unmarshal (frame_lines pf @ [''data: [DONE]'']) (add_text ?st (concat ds))"
    using assms(1,3) by (rule feed_frames)
  also have "\<dots> = feed unmarshal [''data: [DONE]''] (add_text ?st (concat ds))"
    using feed_frame [OF assms(2,4)] by simp
  also have "\<dots> = Returned (stream_return (add_text ?st (concat ds)) None)"
    using dropCR_done by (rule feed_done)
  also have "stream_return (add_text ?st (concat ds)) None = ?res"
    by (simp add: stream_return_def add_text_def)
  finally show ?thesis .
qed

section \<open>What the stream decoder returns\<close>

text \<open>
  C1. For a body made of frames that carry the deltas \<open>ds\<close> in this order, a frame
  whose delta has no content and the marker line \<open>data: [DONE]\<close>, each frame's line
  shorter than \<open>MaxScanTokenSize\<close> bytes, the text the decoder returns is the
  concatenation of the deltas in this order, nothing between them, whatever follows the
  marker, however the body ends and however its last bytes arrive. When the body ends with
  end-of-file, the decoder returns this text with no error, and has printed it and a
  newline.
\<close>

theorem stream_concatenation:
  assumes "list_all2 (carries unmarshal) ps ds" and "carries unmarshal pf []"
    and "list_all fits ps" and "fits pf"
  shows "answer (handleStreamResponse unmarshal
           \<lparr>content = concat (map sse_frame ps) @ sse_frame pf @ ''data: [DONE]'' @ [CHR 0x0A] @ r,
            read_error = e, last_read = k\<rparr>) = concat ds
       \<and> handleStreamResponse unmarshal
           \<lparr>content = concat (map sse_frame ps) @ sse_frame pf @ ''data: [DONE]'' @ [CHR 0x0A] @ r,
            read_error = None, last_read = k\<rparr> =
         \<lparr>answer = concat ds, failure = None, printed = concat ds @ [CHR 0x0A]\<rparr>"
proof -
  let ?st = "\<lparr>fullContent = [], stdout = []\<rparr>"
  let ?ls = "concat (map frame_lines ps) @ frame_lines pf @ [''data: [DONE]'']"
  let ?res = "\<lparr>answer = concat ds, failure = None, printed = concat ds @ [CHR 0x0A]\<rparr>"
  have body: "concat (map sse_frame ps) @ sse_frame pf @ ''data: [DONE]'' @ [CHR 0x0A] @ r
      = sse_lines ?ls @ r"
    by (simp add: sse_frames_lines sse_frame_lines sse_lines_append sse_lines_single)
  have lines: "\<forall>l\<in>set ?ls. CHR 0x0A \<notin> set l"
    using frames_lines_nl [OF assms(1)] frame_lines_nl [OF assms(2)] by auto
  have fd: "feed unmarshal ?ls ?st = Returned ?res"
    using assms by (rule feed_frames_done)
  have a: "answer (handleStreamResponse unmarshal
      \<lparr>content = sse_lines ?ls @ r, read_error = e, last_read = k\<rparr>) = concat ds"
    using hsr_Returned [OF lines fd, of _ r] by simp
  have b: "handleStreamResponse unmarshal
      \<lparr>content = sse_lines ?ls @ r, read_error = None, last_read = k\<rparr> = ?res"
    using hsr_Returned [OF lines fd, of _ r] by simp
  show ?thesis
    unfolding body using a b by (rule conjI)
qed

text \<open>
  When the read fails, the error depends on how the failure arrives. A reader that hands
  over its error together with the bytes of the body, the marker among them, makes the
  scanner record the error before the loop comes to the marker, and \<open>scanner.Err()\<close>
  returns it after the \<open>break\<close>: the decoder returns the same text, with the error.
\<close>

lemma read_error_with_the_marker:
  assumes "list_all2 (carries unmarshal) ps ds" and "carries unmarshal pf []"
    and "list_all fits ps" and "fits pf"
    and "body = concat (map sse_frame ps) @ sse_frame pf @ ''data: [DONE]'' @ [CHR 0x0A]"
    and "length body \<le> MaxScanTokenSize"
  shows "handleStreamResponse unmarshal
           \<lparr>content = body, read_error = Some x, last_read = length body\<rparr> =
         \<lparr>answer = concat ds, failure = Some (ScanFailed (ReadError x)), printed = concat ds\<rparr>"
proof -
  let ?ls = "concat (map frame_lines ps) @ frame_lines pf @ [''data: [DONE]'']"
  let ?s = "NewScanner \<lparr>content = body, read_error = Some x, last_read = length body\<rparr>"
  have b: "src ?s = sse_lines ?ls @ []"
    by (simp add: NewScanner_def assms(5) sse_frames_lines sse_frame_lines sse_lines_append
        sse_lines_single)
  have lines: "\<forall>l\<in>set ?ls. CHR 0x0A \<notin> set l"
    using frames_lines_nl [OF assms(1)] frame_lines_nl [OF assms(2)] by auto
  have fd: "feed unmarshal ?ls \<lparr>fullContent = [], stdout = []\<rparr>
         = Returned \<lparr>answer = concat ds, failure = None, printed = concat ds @ [CHR 0x0A]\<rparr>"
    using assms(1-4) by (rule feed_frames_done)
  have "err ?s = None" "src_last ?s = length (src ?s)" "length (src ?s) \<le> MaxScanTokenSize"
      "src_error ?s = Some x"
    using assms(6) by (simp_all add: NewScanner_def)
  then have "run unmarshal ?s \<lparr>fullContent = [], stdout = []\<rparr> =
      \<lparr>answer = answer \<lparr>answer = concat ds, failure = None, printed = concat ds @ [CHR 0x0A]\<rparr>,
       failure = Some (ScanFailed (ReadError x)),
       printed = butlast (printed \<lparr>answer = concat ds, failure = None, printed = concat ds @ [CHR 0x0A]\<rparr>)\<rparr>"
    using b lines fd by (rule run_at_once)
  then show ?thesis
    by (simp add: handleStreamResponse_run)
qed

text \<open>
  C6. The decoder stops at a \<open>data: [DONE]\<close> line (ended by LF or CRLF): whatever
  follows the line, however the two bodies end and however their last bytes arrive, the
  text returned on the whole body is the text returned on the body cut after that line.
  When both end with end-of-file the whole result is the same: text, error and output.
  \<open>ls\<close> are the lines before the marker, each without its newline.
\<close>

theorem done_stops_decoding:
  assumes "\<forall>x\<in>set ls. CHR 0x0A \<notin> set x" and "dropCR l = ''data: [DONE]''"
  shows "answer (handleStreamResponse unmarshal
           \<lparr>content = sse_lines ls @ l @ [CHR 0x0A] @ r, read_error = e, last_read = k\<rparr>) =
         answer (handleStreamResponse unmarshal
           \<lparr>content = sse_lines ls @ l @ [CHR 0x0A], read_error = e', last_read = k'\<rparr>)
       \<and> handleStreamResponse unmarshal
           \<lparr>content = sse_lines ls @ l @ [CHR 0x0A] @ r, read_error = None, last_read = k\<rparr> =
         handleStreamResponse unmarshal
           \<lparr>content = sse_lines ls @ l @ [CHR 0x0A], read_error = None, last_read = k'\<rparr>"
proof -
  let ?st = "\<lparr>fullContent = [], stdout = []\<rparr>"
  have nl: "CHR 0x0A \<notin> set l"
    by (rule dropCR_no_newline) (simp add: assms(2))
  have lines: "\<forall>x\<in>set (ls @ [l]). CHR 0x0A \<notin> set x"
    using assms(1) nl by simp
  have stop: "feed unmarshal [l] st = Returned (stream_return st None)" for st
    using assms(2) by (rule feed_done)
  obtain res where fd: "feed unmarshal (ls @ [l]) ?st = Returned res"
    by (cases "feed unmarshal ls ?st") (simp_all add: feed_append stop del: feed.simps)
  have a: "sse_lines ls @ l @ [CHR 0x0A] @ r = sse_lines (ls @ [l]) @ r"
    by (simp add: sse_lines_append sse_lines_single)
  have b: "sse_lines ls @ l @ [CHR 0x0A] = sse_lines (ls @ [l]) @ []"
    by (simp add: sse_lines_append sse_lines_single)
  have whole: "answer (handleStreamResponse unmarshal
        \<lparr>content = sse_lines (ls @ [l]) @ r, read_error = x, last_read = n\<rparr>) = answer res
      \<and> handleStreamResponse unmarshal
        \<lparr>content = sse_lines (ls @ [l]) @ r, read_error = None, last_read = n\<rparr> = res" for x n
    using hsr_Returned [OF lines fd, of _ r] by simp
  have cut: "answer (handleStreamResponse unmarshal
        \<lparr>content = sse_lines (ls @ [l]) @ [], read_error = x, last_read = n\<rparr>) = answer res
      \<and> handleStreamResponse unmarshal
        \<lparr>content = sse_lines (ls @ [l]) @ [], read_error = None, last_read = n\<rparr> = res" for x n
    using hsr_Returned [OF lines fd, of _ "[]"] by simp
  show ?thesis
    unfolding a b using whole [of e k] cut [of e' k'] by simp
qed

text \<open>
  C5. A line that is shorter than \<open>MaxScanTokenSize\<close> bytes, whose payload after
  \<open>data: \<close> is not the \<open>[DONE]\<close> marker and does not parse, contributes nothing:
  with the line inserted after the lines \<open>ls\<close> of a body, the text the decoder returns
  is the text it returns without the line, however the two bodies end and however their
  last bytes arrive. When both end with end-of-file the whole result is the same: text,
  error and output. \<open>rs\<close> are the lines after the inserted one and \<open>t\<close> is what
  follows the last newline, shorter than \<open>MaxScanTokenSize\<close> bytes. The scanner hands
  the line over without its newline and without a carriage return before it
  (\<open>dropCR\<close>).
\<close>

theorem unparsable_line_skipped:
  assumes "\<forall>x\<in>set ls. CHR 0x0A \<notin> set x" and "\<forall>x\<in>set rs. CHR 0x0A \<notin> set x"
    and "CHR 0x0A \<notin> set t" and "length t < MaxScanTokenSize"
    and "CHR 0x0A \<notin> set l" and "length l < MaxScanTokenSize"
    and "dropCR l = ''data: '' @ p" and "p \<noteq> ''[DONE]''" and "unmarshal p = Inl x"
  shows "answer (handleStreamResponse unmarshal
           \<lparr>content = sse_lines ls @ l @ [CHR 0x0A] @ sse_lines rs @ t,
            read_error = e, last_read = k\<rparr>) =
         answer (handleStreamResponse unmarshal
           \<lparr>content = sse_lines ls @ sse_lines rs @ t, read_error = e', last_read = k'\<rparr>)
       \<and> handleStreamResponse unmarshal
           \<lparr>content = sse_lines ls @ l @ [CHR 0x0A] @ sse_lines rs @ t,
            read_error = None, last_read = k\<rparr> =
         handleStreamResponse unmarshal
           \<lparr>content = sse_lines ls @ sse_lines rs @ t, read_error = None, last_read = k'\<rparr>"
proof -
  let ?st = "\<lparr>fullContent = [], stdout = []\<rparr>"
  let ?with = "ls @ [l] @ rs" and ?without = "ls @ rs"
  have l1: "\<forall>x\<in>set ?with. CHR 0x0A \<notin> set x" and l2: "\<forall>x\<in>set ?without. CHR 0x0A \<notin> set x"
    using assms(1,2,5) by auto
  have skip: "stream_line unmarshal (dropCR l) st = (Continue, st)" for st
    unfolding assms(7) using assms(8,9) by (rule stream_line_unparsable)
  have one: "feed unmarshal ([l] @ rs) st = feed unmarshal rs st" for st
    using assms(6) by (simp add: skip)
  have same: "feed unmarshal ?with ?st = feed unmarshal ?without ?st"
    by (simp only: feed_append [of unmarshal ls] one)
  have a: "sse_lines ls @ l @ [CHR 0x0A] @ sse_lines rs @ t = sse_lines ?with @ t"
    by (simp add: sse_lines_def)
  have b: "sse_lines ls @ sse_lines rs @ t = sse_lines ?without @ t"
    by (simp add: sse_lines_append)
  show ?thesis
  proof (cases "feed unmarshal ?without ?st")
    case (Reading st')
    have "handleStreamResponse unmarshal
        \<lparr>content = sse_lines ?with @ t, read_error = y, last_read = n\<rparr>
      = stream_return (if t = [] then st' else snd (stream_line unmarshal (dropCR t) st'))
          (ending y)" for y n
      using hsr_body [OF l1 assms(3,4), of unmarshal st'] same Reading by simp
    moreover have "handleStreamResponse unmarshal
        \<lparr>content = sse_lines ?without @ t, read_error = y, last_read = n\<rparr>
      = stream_return (if t = [] then st' else snd (stream_line unmarshal (dropCR t) st'))
          (ending y)" for y n
      using hsr_body [OF l2 assms(3,4), of unmarshal st'] Reading by simp
    ultimately show ?thesis
      unfolding a b by simp
  next
    case (Returned res)
    have "answer (handleStreamResponse unmarshal
          \<lparr>content = sse_lines ?with @ t, read_error = y, last_read = n\<rparr>) = answer res
        \<and> handleStreamResponse unmarshal
          \<lparr>content = sse_lines ?with @ t, read_error = None, last_read = n\<rparr> = res" for y n
      using hsr_Returned [OF l1, of unmarshal res _ t] same Returned by simp
    moreover have "answer (handleStreamResponse unmarshal
          \<lparr>content = sse_lines ?without @ t, read_error = y, last_read = n\<rparr>) = answer res
        \<and> handleStreamResponse unmarshal
          \<lparr>content = sse_lines ?without @ t, read_error = None, last_read = n\<rparr> = res" for y n
      using hsr_Returned [OF l2, of unmarshal res _ t] Returned by simp
    ultimately show ?thesis
      unfolding a b by simp
  qed
qed

text \<open>
  C9. When no line of the body starts with \<open>data: \<close>, every line is shorter than
  \<open>MaxScanTokenSize\<close> bytes and the read ends with end-of-file, the decoder returns the
  empty string and no error (and prints the closing newline). \<open>ls\<close> are the lines that
  end in a newline, \<open>t\<close> what follows the last newline.
\<close>

theorem no_data_lines_empty_answer:
  assumes "\<forall>x\<in>set ls. CHR 0x0A \<notin> set x \<and> length x < MaxScanTokenSize
             \<and> \<not> HasPrefix x ''data: ''"
    and "CHR 0x0A \<notin> set t" and "length t < MaxScanTokenSize" and "\<not> HasPrefix t ''data: ''"
  shows "handleStreamResponse unmarshal
           \<lparr>content = sse_lines ls @ t, read_error = None, last_read = k\<rparr> =
         \<lparr>answer = [], failure = None, printed = [CHR 0x0A]\<rparr>"
proof -
  let ?st = "\<lparr>fullContent = [], stdout = []\<rparr>"
  have lines: "\<forall>x\<in>set ls. CHR 0x0A \<notin> set x"
    using assms(1) by simp
  have fd: "feed unmarshal ls ?st = Reading ?st"
    using assms(1) by (intro feed_skip) simp
  have "\<not> HasPrefix (dropCR t) ''data: ''"
    using assms(4) HasPrefix_dropCR by auto
  then have "stream_line unmarshal (dropCR t) ?st = (Continue, ?st)"
    by (rule stream_line_other)
  then have "handleStreamResponse unmarshal
      \<lparr>content = sse_lines ls @ t, read_error = None, last_read = k\<rparr> = stream_return ?st None"
    using hsr_body [OF lines assms(2,3) fd, of _ ] by (simp add: ending_def)
  then show ?thesis by (simp add: stream_return_def)
qed

text \<open>
  What a failing read may leave after the last newline: \<open>cut_off unmarshal t\<close> says
  that \<open>t\<close> has no newline, is shorter than \<open>MaxScanTokenSize\<close> bytes, and is not a
  data line whose payload decodes to a chunk. It is empty, or the beginning of a line.
\<close>

definition cut_off :: "(string \<Rightarrow> string + StreamChunk) \<Rightarrow> string \<Rightarrow> bool" where
  "cut_off unmarshal t =
     (CHR 0x0A \<notin> set t \<and> length t < MaxScanTokenSize
      \<and> (HasPrefix (dropCR t) ''data: '' \<longrightarrow>
           (case unmarshal (TrimPrefix (dropCR t) ''data: '') of
              Inl e \<Rightarrow> True
            | Inr chunk \<Rightarrow> False)))"

lemma cut_off_adds_nothing:
  assumes "cut_off unmarshal t"
  shows "snd (stream_line unmarshal (dropCR t) st) = st"
  using assms by (auto simp: cut_off_def stream_line_def Let_def split: sum.splits)

text \<open>
  C7. The body delivers frames that carry the deltas \<open>ds\<close>, each on a line shorter than
  \<open>MaxScanTokenSize\<close> bytes, then possibly the beginning \<open>t\<close> of a line, and its read
  fails with the error \<open>x\<close>. The decoder fails with the scan error that wraps \<open>x\<close>, and
  the text returned with the error is the concatenation of the deltas of the frames read,
  which the decoder has also printed: nothing accumulated is dropped. When no byte was
  delivered, the text returned with the error is empty.
\<close>

theorem read_error_keeps_text:
  assumes "list_all2 (carries unmarshal) ps ds" and "list_all fits ps"
    and "cut_off unmarshal t"
  shows "handleStreamResponse unmarshal
           \<lparr>content = concat (map sse_frame ps) @ t, read_error = Some x, last_read = k\<rparr> =
         \<lparr>answer = concat ds, failure = Some (ScanFailed (ReadError x)), printed = concat ds\<rparr>
       \<and> handleStreamResponse unmarshal \<lparr>content = [], read_error = Some x, last_read = k\<rparr> =
         \<lparr>answer = [], failure = Some (ScanFailed (ReadError x)), printed = []\<rparr>"
proof -
  let ?st = "\<lparr>fullContent = [], stdout = []\<rparr>"
  let ?ls = "concat (map frame_lines ps)"
  have lines: "\<forall>l\<in>set ?ls. CHR 0x0A \<notin> set l"
    using assms(1) by (rule frames_lines_nl)
  have "feed unmarshal (?ls @ []) ?st = feed unmarshal [] (add_text ?st (concat ds))"
    using assms(1,2) by (rule feed_frames)
  then have fd: "feed unmarshal ?ls ?st = Reading (add_text ?st (concat ds))"
    by simp
  have t: "CHR 0x0A \<notin> set t" "length t < MaxScanTokenSize"
    using assms(3) by (simp_all add: cut_off_def)
  have "handleStreamResponse unmarshal
      \<lparr>content = sse_lines ?ls @ t, read_error = Some x, last_read = k\<rparr>
    = stream_return (add_text ?st (concat ds)) (Some (ReadError x))"
    using hsr_body [OF lines t fd, of _] cut_off_adds_nothing [OF assms(3)]
    by (simp add: ending_def)
  then have a: "handleStreamResponse unmarshal
      \<lparr>content = concat (map sse_frame ps) @ t, read_error = Some x, last_read = k\<rparr> =
      \<lparr>answer = concat ds, failure = Some (ScanFailed (ReadError x)), printed = concat ds\<rparr>"
    by (simp add: sse_frames_lines stream_return_def add_text_def)
  have e: "\<forall>l\<in>set ([] :: string list). CHR 0x0A \<notin> set l"
    by simp
  have "handleStreamResponse unmarshal \<lparr>content = [], read_error = Some x, last_read = k\<rparr>
    = stream_return ?st (Some (ReadError x))"
    using hsr_body [OF e, of "[]" unmarshal ?st] Max_pos
    by (simp add: sse_lines_def ending_def)
  then have b: "handleStreamResponse unmarshal
      \<lparr>content = [], read_error = Some x, last_read = k\<rparr> =
      \<lparr>answer = [], failure = Some (ScanFailed (ReadError x)), printed = []\<rparr>"
    by (simp add: stream_return_def)
  show ?thesis
    using a b by (rule conjI)
qed

section \<open>The data of the examples\<close>

text \<open>
  The body of the repository's test \<open>TestHandleStreamResponse\<close>: a frame with the role
  only, five frames with the deltas \<open>zhe_shi\<close>, \<open>yi_ge\<close>, \<open>liu_shi\<close>,
  \<open>xiang_ying\<close>, \<open>ce_shi\<close> (the UTF-8 bytes of the test's five Chinese fragments),
  a finish frame without content, and the marker. \<open>test_Unmarshal\<close> stands for
  \<open>json.Unmarshal\<close> in the examples: on the payloads of the examples it returns the
  chunk \<open>json.Unmarshal\<close> fills, and it rejects everything else, which in the examples
  are \<open>[DONE]\<close> and text that is not JSON. \<open>long_payload\<close> is a well-formed chunk
  whose delta has \<open>MaxScanTokenSize\<close> bytes, \<open>long_garbage\<close> as many bytes that are
  not JSON.
\<close>

definition zhe_shi :: string where
  "zhe_shi = [CHR 0xE8, CHR 0xBF, CHR 0x99, CHR 0xE6, CHR 0x98, CHR 0xAF]"

definition yi_ge :: string where
  "yi_ge = [CHR 0xE4, CHR 0xB8, CHR 0x80, CHR 0xE4, CHR 0xB8, CHR 0xAA]"

definition liu_shi :: string where
  "liu_shi = [CHR 0xE6, CHR 0xB5, CHR 0x81, CHR 0xE5, CHR 0xBC, CHR 0x8F]"

definition xiang_ying :: string where
  "xiang_ying = [CHR 0xE5, CHR 0x93, CHR 0x8D, CHR 0xE5, CHR 0xBA, CHR 0x94]"

definition ce_shi :: string where
  "ce_shi = [CHR 0xE6, CHR 0xB5, CHR 0x8B, CHR 0xE8, CHR 0xAF, CHR 0x95]"

definition long_text :: string where
  "long_text = replicate MaxScanTokenSize (CHR ''a'')"

definition test_payload :: "string \<Rightarrow> string \<Rightarrow> string" where
  \<open>test_payload delta finish =
     ''{"id":"chatcmpl-123","object":"chat.completion.chunk","created":1677858242,''
     @ ''"model":"gpt-3.5-turbo-0613","choices":[{"index":0,"delta":{'' @ delta
     @ ''},"finish_reason":'' @ finish @ ''}]}''\<close>

definition test_content :: "string \<Rightarrow> string" where
  \<open>test_content d = ''"content":"'' @ d @ ''"''\<close>

definition test_chunk :: "string \<Rightarrow> string \<Rightarrow> string option \<Rightarrow> StreamChunk" where
  "test_chunk role text finish =
     \<lparr>StreamChunk.ID = ''chatcmpl-123'', Object = ''chat.completion.chunk'',
      Created = 1677858242, Model = ''gpt-3.5-turbo-0613'',
      Choices = [\<lparr>ChunkChoice.Index = 0, Delta = \<lparr>Delta.Role = role, Content = text\<rparr>,
                  FinishReason = finish\<rparr>]\<rparr>"

definition test_Unmarshal :: "string \<Rightarrow> string + StreamChunk" where
  \<open>test_Unmarshal data =
     (if data = test_payload ''"role":"assistant"'' ''null''
      then Inr (test_chunk ''assistant'' [] None)
      else if data = test_payload [] ''"stop"''
      then Inr (test_chunk [] [] (Some ''stop''))
      else case find (\<lambda>d. data = test_payload (test_content d) ''null'')
                  [zhe_shi, yi_ge, liu_shi, xiang_ying, ce_shi, long_text] of
             Some d \<Rightarrow> Inr (test_chunk [] d None)
           | None \<Rightarrow> Inl ''invalid character'')\<close>

lemma long_text_head: "long_text = CHR ''a'' # replicate (MaxScanTokenSize - 1) (CHR ''a'')"
  by (simp add: long_text_def MaxScanTokenSize_def flip: replicate_Suc)

lemma test_payload_eq:
  \<open>test_payload d f = test_payload d' f' \<longleftrightarrow>
     d @ ''},"finish_reason":'' @ f @ ''}]}'' = d' @ ''},"finish_reason":'' @ f' @ ''}]}''\<close>
  by (simp add: test_payload_def)

lemma test_payload_nl:
  "CHR 0x0A \<notin> set (test_payload d f) \<longleftrightarrow> CHR 0x0A \<notin> set d \<and> CHR 0x0A \<notin> set f"
  by (simp add: test_payload_def)

lemma test_payload_cr:
  "CHR 0x0D \<notin> set (test_payload d f) \<longleftrightarrow> CHR 0x0D \<notin> set d \<and> CHR 0x0D \<notin> set f"
  by (simp add: test_payload_def)

lemma test_payload_length: "length (test_payload d f) = 156 + length d + length f"
  by (simp add: test_payload_def)

lemma test_payload_not_done: \<open>test_payload d f \<noteq> ''[DONE]''\<close>
  by (simp add: test_payload_def)

lemma Unmarshal_role:
  \<open>test_Unmarshal (test_payload ''"role":"assistant"'' ''null'') = Inr (test_chunk ''assistant'' [] None)\<close>
  by (simp add: test_Unmarshal_def)

lemma Unmarshal_stop:
  \<open>test_Unmarshal (test_payload [] ''"stop"'') = Inr (test_chunk [] [] (Some ''stop''))\<close>
  by (simp add: test_Unmarshal_def test_payload_eq)

lemma Unmarshal_content:
  \<open>test_Unmarshal (test_payload (test_content zhe_shi) ''null'') = Inr (test_chunk [] zhe_shi None)\<close>
  \<open>test_Unmarshal (test_payload (test_content yi_ge) ''null'') = Inr (test_chunk [] yi_ge None)\<close>
  \<open>test_Unmarshal (test_payload (test_content liu_shi) ''null'') = Inr (test_chunk [] liu_shi None)\<close>
  \<open>test_Unmarshal (test_payload (test_content xiang_ying) ''null'') = Inr (test_chunk [] xiang_ying None)\<close>
  \<open>test_Unmarshal (test_payload (test_content ce_shi) ''null'') = Inr (test_chunk [] ce_shi None)\<close>
  by (simp_all add: test_Unmarshal_def test_payload_eq test_content_def
      zhe_shi_def yi_ge_def liu_shi_def xiang_ying_def ce_shi_def)

lemma Unmarshal_long:
  \<open>test_Unmarshal (test_payload (test_content long_text) ''null'') = Inr (test_chunk [] long_text None)\<close>
  by (simp add: test_Unmarshal_def test_payload_eq test_content_def long_text_head
      zhe_shi_def yi_ge_def liu_shi_def xiang_ying_def ce_shi_def)

definition test_frames :: "string list" where
  \<open>test_frames =
     [test_payload ''"role":"assistant"'' ''null'',
      test_payload (test_content zhe_shi) ''null'',
      test_payload (test_content yi_ge) ''null'',
      test_payload (test_content liu_shi) ''null'',
      test_payload (test_content xiang_ying) ''null'',
      test_payload (test_content ce_shi) ''null'']\<close>

definition test_finish :: string where
  \<open>test_finish = test_payload [] ''"stop"''\<close>

definition test_deltas :: "string list" where
  "test_deltas = [[], zhe_shi, yi_ge, liu_shi, xiang_ying, ce_shi]"

lemmas zh_defs = zhe_shi_def yi_ge_def liu_shi_def xiang_ying_def ce_shi_def

lemma carries_test_frames: "list_all2 (carries test_Unmarshal) test_frames test_deltas"
  by (simp add: test_frames_def test_deltas_def carries_def test_payload_nl test_payload_cr
      test_payload_not_done Unmarshal_role Unmarshal_content test_chunk_def)
     (simp add: test_content_def zh_defs)

lemma carries_test_finish: "carries test_Unmarshal test_finish []"
  by (simp add: test_finish_def carries_def test_payload_nl test_payload_cr
      test_payload_not_done Unmarshal_stop test_chunk_def)

lemma fits_test_frames: "list_all fits test_frames"
  by (simp add: test_frames_def fits_def test_payload_length test_content_def zh_defs
      MaxScanTokenSize_def)

lemma fits_test_finish: "fits test_finish"
  by (simp add: test_finish_def fits_def test_payload_length MaxScanTokenSize_def)

definition long_payload :: string where
  \<open>long_payload = test_payload (test_content long_text) ''null''\<close>

definition long_garbage :: string where
  "long_garbage = ''{not json'' @ replicate MaxScanTokenSize (CHR ''x'')"

lemma long_text_set: "set long_text = {CHR ''a''}"
  using Max_pos by (auto simp: long_text_def)

lemma long_text_length: "length long_text = MaxScanTokenSize"
  by (simp add: long_text_def)

lemma carries_long: "carries test_Unmarshal long_payload long_text"
  by (simp add: long_payload_def carries_def test_payload_nl test_payload_cr
      test_payload_not_done Unmarshal_long test_chunk_def)
     (simp add: test_content_def long_text_set)

lemma long_payload_nl: "CHR 0x0A \<notin> set long_payload"
  using carries_long by (simp add: carries_def)

lemma long_payload_length: "MaxScanTokenSize \<le> length long_payload"
  by (simp add: long_payload_def test_payload_length test_content_def long_text_length)

text \<open>
  Two frames of the test's body: \<open>first_frame\<close> is the lines of the frame with the
  delta \<open>zhe_shi\<close>, \<open>second_frame\<close> the frame with the delta \<open>yi_ge\<close>.
\<close>

definition first_frame :: "string list" where
  "first_frame = [''data: '' @ test_payload (test_content zhe_shi) ''null'', []]"

definition second_frame :: string where
  "second_frame = sse_frame (test_payload (test_content yi_ge) ''null'')"

lemma first_frame_lines: "\<forall>x\<in>set first_frame. CHR 0x0A \<notin> set x"
  by (simp add: first_frame_def test_payload_nl test_content_def zhe_shi_def)

lemma first_frame_sse: "sse_lines first_frame = sse_frame (test_payload (test_content zhe_shi) ''null'')"
  by (simp add: first_frame_def sse_lines_def sse_frame_def)

lemma carries_zhe_shi: "carries test_Unmarshal (test_payload (test_content zhe_shi) ''null'') zhe_shi"
  using carries_test_frames by (simp add: test_frames_def test_deltas_def)

lemma carries_yi_ge: "carries test_Unmarshal (test_payload (test_content yi_ge) ''null'') yi_ge"
  using carries_test_frames by (simp add: test_frames_def test_deltas_def)

lemma fits_zhe_shi: "fits (test_payload (test_content zhe_shi) ''null'')"
  using fits_test_frames by (simp add: test_frames_def)

lemma fits_yi_ge: "fits (test_payload (test_content yi_ge) ''null'')"
  using fits_test_frames by (simp add: test_frames_def)

lemma Unmarshal_not_json: \<open>test_Unmarshal ''{not json'' = Inl ''invalid character''\<close>
  by (simp add: test_Unmarshal_def test_payload_def)

lemma Unmarshal_done: \<open>test_Unmarshal ''[DONE]'' = Inl ''invalid character''\<close>
  by (simp add: test_Unmarshal_def test_payload_def)

lemma Unmarshal_long_garbage: \<open>test_Unmarshal long_garbage = Inl ''invalid character''\<close>
  by (simp add: test_Unmarshal_def test_payload_def long_garbage_def)

lemma long_garbage_line:
  "CHR 0x0A \<notin> set (''data: '' @ long_garbage) \<and> MaxScanTokenSize \<le> length (''data: '' @ long_garbage)"
  by (simp add: long_garbage_def)

section \<open>The decoder on the examples\<close>

text \<open>\<open>second_lines\<close> is the lines of the second frame and the marker.\<close>

definition second_lines :: "string list" where
  "second_lines = [''data: '' @ test_payload (test_content yi_ge) ''null'', [], ''data: [DONE]'']"

lemma feed_long:
  "MaxScanTokenSize \<le> length l \<Longrightarrow>
   feed unmarshal (l # ls) st = Returned (stream_return st (Some ErrTooLong))"
  by simp

lemma stream_return_TooLong:
  "stream_return \<lparr>fullContent = a, stdout = b\<rparr> (Some ErrTooLong)
     = \<lparr>answer = a, failure = Some (ScanFailed ErrTooLong), printed = b\<rparr>"
  by (simp add: stream_return_def)

lemma first_frame_frame: "first_frame = frame_lines (test_payload (test_content zhe_shi) ''null'')"
  by (simp add: first_frame_def frame_lines_def)

lemma second_lines_frame:
  "second_lines = frame_lines (test_payload (test_content yi_ge) ''null'') @ [''data: [DONE]'']"
  by (simp add: second_lines_def frame_lines_def)

lemma second_frame_lines: "second_frame = sse_lines (frame_lines (test_payload (test_content yi_ge) ''null''))"
  by (simp add: second_frame_def sse_frame_lines)

lemma second_lines_nl: "\<forall>x\<in>set second_lines. CHR 0x0A \<notin> set x"
  by (simp add: second_lines_def test_payload_nl test_content_def yi_ge_def)

lemma feed_first:
  "feed test_Unmarshal (first_frame @ ls) \<lparr>fullContent = [], stdout = []\<rparr>
     = feed test_Unmarshal ls \<lparr>fullContent = zhe_shi, stdout = zhe_shi\<rparr>"
  unfolding first_frame_frame feed_frame [OF carries_zhe_shi fits_zhe_shi]
  by (simp add: add_text_def)

lemma feed_second:
  "feed test_Unmarshal second_lines \<lparr>fullContent = zhe_shi, stdout = zhe_shi\<rparr>
     = Returned \<lparr>answer = zhe_shi @ yi_ge, failure = None,
         printed = zhe_shi @ yi_ge @ [CHR 0x0A]\<rparr>"
  unfolding second_lines_frame feed_frame [OF carries_yi_ge fits_yi_ge]
    feed_done [OF dropCR_done]
  by (simp add: add_text_def stream_return_def)

lemma feed_marker:
  "feed test_Unmarshal (''data: [DONE]'' # ls) \<lparr>fullContent = zhe_shi, stdout = zhe_shi\<rparr>
     = Returned \<lparr>answer = zhe_shi, failure = None, printed = zhe_shi @ [CHR 0x0A]\<rparr>"
  unfolding feed_done [OF dropCR_done]
  by (simp add: stream_return_def)

lemma two_frames_done:
  "handleStreamResponse test_Unmarshal
     \<lparr>content = sse_lines first_frame @ sse_lines second_lines, read_error = None, last_read = 0\<rparr>
   = \<lparr>answer = zhe_shi @ yi_ge, failure = None, printed = zhe_shi @ yi_ge @ [CHR 0x0A]\<rparr>"
proof -
  have l: "\<forall>x\<in>set (first_frame @ second_lines). CHR 0x0A \<notin> set x"
    using first_frame_lines second_lines_nl by auto
  have f: "feed test_Unmarshal (first_frame @ second_lines) \<lparr>fullContent = [], stdout = []\<rparr>
      = Returned \<lparr>answer = zhe_shi @ yi_ge, failure = None, printed = zhe_shi @ yi_ge @ [CHR 0x0A]\<rparr>"
    unfolding feed_first feed_second ..
  show ?thesis
    using hsr_Returned [OF l f, of _ "[]"] by (simp add: sse_lines_append)
qed

lemma first_frame_done:
  "handleStreamResponse test_Unmarshal
     \<lparr>content = sse_lines first_frame @ ''data: [DONE]'' @ [CHR 0x0A] @ r, read_error = None,
      last_read = 0\<rparr>
   = \<lparr>answer = zhe_shi, failure = None, printed = zhe_shi @ [CHR 0x0A]\<rparr>"
proof -
  have l: "\<forall>x\<in>set (first_frame @ [''data: [DONE]'']). CHR 0x0A \<notin> set x"
    using first_frame_lines by auto
  have f: "feed test_Unmarshal (first_frame @ [''data: [DONE]'']) \<lparr>fullContent = [], stdout = []\<rparr>
      = Returned \<lparr>answer = zhe_shi, failure = None, printed = zhe_shi @ [CHR 0x0A]\<rparr>"
    unfolding feed_first feed_marker ..
  show ?thesis
    using hsr_Returned [OF l f, of _ r] by (simp add: sse_lines_append sse_lines_single)
qed

text \<open>
  C1 on the body of the repository's test, read from a \<open>strings.Reader\<close>: the result
  is the concatenation of the five fragments, with no error.
\<close>

theorem stream_concatenation_witness:
  "handleStreamResponse test_Unmarshal
     \<lparr>content = concat (map sse_frame test_frames) @ sse_frame test_finish
        @ ''data: [DONE]'' @ [CHR 0x0A],
      read_error = None, last_read = 0\<rparr> =
   \<lparr>answer = zhe_shi @ yi_ge @ liu_shi @ xiang_ying @ ce_shi, failure = None,
    printed = zhe_shi @ yi_ge @ liu_shi @ xiang_ying @ ce_shi @ [CHR 0x0A]\<rparr>"
proof -
  have c: "concat test_deltas = zhe_shi @ yi_ge @ liu_shi @ xiang_ying @ ce_shi"
    by (simp add: test_deltas_def)
  show ?thesis
    using stream_concatenation [OF carries_test_frames carries_test_finish
        fits_test_frames fits_test_finish, of "[]" None 0, THEN conjunct2]
    by (simp only: c append_Nil2 append_assoc)
qed

text \<open>
  C1 as stated fails on a frame of \<open>MaxScanTokenSize\<close> bytes or more: the frame below
  carries the delta \<open>long_text\<close> in a well-formed chunk and is followed by a finish frame
  and the marker, and the decoder returns the scan error \<open>ErrTooLong\<close> with no text.
\<close>

theorem stream_concatenation_counterexample:
  "list_all2 (carries test_Unmarshal) [long_payload] [long_text]
   \<and> carries test_Unmarshal test_finish []
   \<and> handleStreamResponse test_Unmarshal
       \<lparr>content = concat (map sse_frame [long_payload]) @ sse_frame test_finish
          @ ''data: [DONE]'' @ [CHR 0x0A],
        read_error = None, last_read = 0\<rparr> =
     \<lparr>answer = [], failure = Some (ScanFailed ErrTooLong), printed = []\<rparr>
   \<and> concat [long_text] \<noteq> []"
proof -
  let ?ls = "frame_lines long_payload @ frame_lines test_finish @ [''data: [DONE]'']"
  have body: "concat (map sse_frame [long_payload]) @ sse_frame test_finish
      @ ''data: [DONE]'' @ [CHR 0x0A] = sse_lines ?ls @ []"
    by (simp add: sse_frame_lines sse_lines_append sse_lines_single)
  have l: "\<forall>x\<in>set ?ls. CHR 0x0A \<notin> set x"
    using frame_lines_nl [OF carries_long] frame_lines_nl [OF carries_test_finish] by auto
  have long: "MaxScanTokenSize \<le> length (''data: '' @ long_payload)"
    using long_payload_length by simp
  have f: "feed test_Unmarshal ?ls \<lparr>fullContent = [], stdout = []\<rparr>
      = Returned \<lparr>answer = [], failure = Some (ScanFailed ErrTooLong), printed = []\<rparr>"
    using long_payload_length by (simp add: frame_lines_def stream_return_def)
  have res: "handleStreamResponse test_Unmarshal
       \<lparr>content = concat (map sse_frame [long_payload]) @ sse_frame test_finish
          @ ''data: [DONE]'' @ [CHR 0x0A],
        read_error = None, last_read = 0\<rparr> =
     \<lparr>answer = [], failure = Some (ScanFailed ErrTooLong), printed = []\<rparr>"
    unfolding body using hsr_Returned [OF l f, of _ "[]"] by simp
  have ne: "concat [long_text] \<noteq> []"
    by (simp add: long_text_head)
  have c: "list_all2 (carries test_Unmarshal) [long_payload] [long_text]"
    using carries_long by simp
  show ?thesis
    by (intro conjI) (fact c carries_test_finish res ne)+
qed

text \<open>
  The body of the test once more, from a reader that hands over all of its 1299 bytes and
  a read error in one \<open>Read\<close>: the text is the same, and the error is returned.
\<close>

lemma test_body_length:
  "length (concat (map sse_frame test_frames) @ sse_frame test_finish @ ''data: [DONE]'' @ [CHR 0x0A])
     = 1299"
  by (simp add: test_frames_def test_finish_def sse_frame_def test_payload_length test_content_def
      zh_defs)

lemma read_error_with_the_marker_example:
  "handleStreamResponse test_Unmarshal
     \<lparr>content = concat (map sse_frame test_frames) @ sse_frame test_finish
        @ ''data: [DONE]'' @ [CHR 0x0A],
      read_error = Some ''unexpected EOF'', last_read = 1299\<rparr> =
   \<lparr>answer = zhe_shi @ yi_ge @ liu_shi @ xiang_ying @ ce_shi,
    failure = Some (ScanFailed (ReadError ''unexpected EOF'')),
    printed = zhe_shi @ yi_ge @ liu_shi @ xiang_ying @ ce_shi\<rparr>"
proof -
  have c: "concat test_deltas = zhe_shi @ yi_ge @ liu_shi @ xiang_ying @ ce_shi"
    by (simp add: test_deltas_def)
  have n: "length (concat (map sse_frame test_frames) @ sse_frame test_finish
      @ ''data: [DONE]'' @ [CHR 0x0A]) \<le> MaxScanTokenSize"
    unfolding test_body_length by (simp add: MaxScanTokenSize_def)
  show ?thesis
    using read_error_with_the_marker [OF carries_test_frames carries_test_finish
        fits_test_frames fits_test_finish refl n, of "''unexpected EOF''"]
    unfolding test_body_length c .
qed

text \<open>
  C6 on the example: with the marker after the first frame, the second frame after the
  marker changes nothing, even when the read fails after it, and the answer is the first
  delta.
\<close>

theorem done_stops_decoding_witness:
  "answer (handleStreamResponse test_Unmarshal
     \<lparr>content = sse_lines first_frame @ ''data: [DONE]'' @ [CHR 0x0A] @ second_frame,
      read_error = Some ''unexpected EOF'', last_read = 0\<rparr>)
   = answer (handleStreamResponse test_Unmarshal
       \<lparr>content = sse_lines first_frame @ ''data: [DONE]'' @ [CHR 0x0A], read_error = None,
        last_read = 0\<rparr>)
   \<and> handleStreamResponse test_Unmarshal
     \<lparr>content = sse_lines first_frame @ ''data: [DONE]'' @ [CHR 0x0A] @ second_frame,
      read_error = None, last_read = 0\<rparr>
   = handleStreamResponse test_Unmarshal
       \<lparr>content = sse_lines first_frame @ ''data: [DONE]'' @ [CHR 0x0A], read_error = None,
        last_read = 0\<rparr>
   \<and> handleStreamResponse test_Unmarshal
       \<lparr>content = sse_lines first_frame @ ''data: [DONE]'' @ [CHR 0x0A], read_error = None,
        last_read = 0\<rparr>
     = \<lparr>answer = zhe_shi, failure = None, printed = zhe_shi @ [CHR 0x0A]\<rparr>"
proof -
  have v: "handleStreamResponse test_Unmarshal
       \<lparr>content = sse_lines first_frame @ ''data: [DONE]'' @ [CHR 0x0A], read_error = None,
        last_read = 0\<rparr>
     = \<lparr>answer = zhe_shi, failure = None, printed = zhe_shi @ [CHR 0x0A]\<rparr>"
    using first_frame_done [of "[]"] by (simp only: append_Nil2)
  note t = done_stops_decoding [OF first_frame_lines dropCR_done, of test_Unmarshal second_frame
      "Some ''unexpected EOF''" 0 None 0]
  show ?thesis
    by (intro conjI) (fact t [THEN conjunct1] t [THEN conjunct2] v)+
qed

text \<open>
  C5 on the example: the line \<open>data: {not json\<close> between the two frames changes
  nothing, and the answer is the two deltas.
\<close>

theorem unparsable_line_skipped_witness:
  "answer (handleStreamResponse test_Unmarshal
     \<lparr>content = sse_lines first_frame @ ''data: {not json'' @ [CHR 0x0A]
        @ sse_lines second_lines,
      read_error = Some ''unexpected EOF'', last_read = 0\<rparr>)
   = answer (handleStreamResponse test_Unmarshal
       \<lparr>content = sse_lines first_frame @ sse_lines second_lines, read_error = None,
        last_read = 0\<rparr>)
   \<and> handleStreamResponse test_Unmarshal
     \<lparr>content = sse_lines first_frame @ ''data: {not json'' @ [CHR 0x0A]
        @ sse_lines second_lines,
      read_error = None, last_read = 0\<rparr>
   = handleStreamResponse test_Unmarshal
       \<lparr>content = sse_lines first_frame @ sse_lines second_lines, read_error = None,
        last_read = 0\<rparr>
   \<and> handleStreamResponse test_Unmarshal
       \<lparr>content = sse_lines first_frame @ sse_lines second_lines, read_error = None,
        last_read = 0\<rparr>
     = \<lparr>answer = zhe_shi @ yi_ge, failure = None, printed = zhe_shi @ yi_ge @ [CHR 0x0A]\<rparr>"
proof -
  have n: "CHR 0x0A \<notin> set ''data: {not json''"
    by simp
  have s: "length ''data: {not json'' < MaxScanTokenSize"
    by (simp add: MaxScanTokenSize_def)
  have d: "dropCR ''data: {not json'' = ''data: '' @ ''{not json''"
    by (simp add: dropCR_def)
  have p: "''{not json'' \<noteq> ''[DONE]''"
    by simp
  have tn: "CHR 0x0A \<notin> set ([] :: string)" and ts: "length ([] :: string) < MaxScanTokenSize"
    by (simp_all add: MaxScanTokenSize_def)
  note t = unparsable_line_skipped [where unmarshal = test_Unmarshal and p = "''{not json''"
      and e = "Some ''unexpected EOF''" and k = 0 and e' = None and k' = 0,
      OF first_frame_lines second_lines_nl tn ts n s d p Unmarshal_not_json,
      unfolded append_Nil2]
  show ?thesis
    by (intro conjI) (fact t [THEN conjunct1] t [THEN conjunct2] two_frames_done)+
qed

text \<open>
  C5 as stated fails on two lines whose payload does not parse. Between the two frames, a
  line of \<open>MaxScanTokenSize\<close> bytes or more ends the decoding with the scan error
  \<open>ErrTooLong\<close>, and the line \<open>data: [DONE]\<close> ends it with success: in both cases
  the answer is the first delta only, where the body without the line gives both.
\<close>

theorem unparsable_line_skipped_counterexample:
  "test_Unmarshal long_garbage = Inl ''invalid character''
   \<and> handleStreamResponse test_Unmarshal
       \<lparr>content = sse_lines first_frame @ (''data: '' @ long_garbage) @ [CHR 0x0A]
          @ sse_lines second_lines,
        read_error = None, last_read = 0\<rparr>
     = \<lparr>answer = zhe_shi, failure = Some (ScanFailed ErrTooLong), printed = zhe_shi\<rparr>
   \<and> test_Unmarshal ''[DONE]'' = Inl ''invalid character''
   \<and> handleStreamResponse test_Unmarshal
       \<lparr>content = sse_lines first_frame @ ''data: [DONE]'' @ [CHR 0x0A]
          @ sse_lines second_lines,
        read_error = None, last_read = 0\<rparr>
     = \<lparr>answer = zhe_shi, failure = None, printed = zhe_shi @ [CHR 0x0A]\<rparr>
   \<and> handleStreamResponse test_Unmarshal
       \<lparr>content = sse_lines first_frame @ sse_lines second_lines, read_error = None,
        last_read = 0\<rparr>
     = \<lparr>answer = zhe_shi @ yi_ge, failure = None, printed = zhe_shi @ yi_ge @ [CHR 0x0A]\<rparr>
   \<and> zhe_shi @ yi_ge \<noteq> zhe_shi"
proof -
  let ?l = "''data: '' @ long_garbage"
  have l: "\<forall>x\<in>set (first_frame @ [?l]). CHR 0x0A \<notin> set x"
    using first_frame_lines long_garbage_line by auto
  have f: "feed test_Unmarshal (first_frame @ [?l]) \<lparr>fullContent = [], stdout = []\<rparr>
      = Returned \<lparr>answer = zhe_shi, failure = Some (ScanFailed ErrTooLong), printed = zhe_shi\<rparr>"
    unfolding feed_first feed_long [OF long_garbage_line [THEN conjunct2]] stream_return_TooLong ..
  have body: "sse_lines first_frame @ ?l @ [CHR 0x0A] @ sse_lines second_lines
      = sse_lines (first_frame @ [?l]) @ sse_lines second_lines"
    by (simp add: sse_lines_append sse_lines_single)
  have a: "handleStreamResponse test_Unmarshal
       \<lparr>content = sse_lines first_frame @ ?l @ [CHR 0x0A] @ sse_lines second_lines,
        read_error = None, last_read = 0\<rparr>
     = \<lparr>answer = zhe_shi, failure = Some (ScanFailed ErrTooLong), printed = zhe_shi\<rparr>"
    unfolding body using hsr_Returned [OF l f, of _ "sse_lines second_lines"] by simp
  have b: "zhe_shi @ yi_ge \<noteq> zhe_shi"
    by (simp add: yi_ge_def)
  show ?thesis
    by (intro conjI)
       (fact Unmarshal_long_garbage a Unmarshal_done first_frame_done two_frames_done b)+
qed

text \<open>
  C7 on the example: the read fails after the six frames of the test's body and the
  beginning of a seventh; the error comes with the five deltas. With no bytes it comes
  with the empty text.
\<close>

theorem read_error_keeps_text_witness:
  \<open>handleStreamResponse test_Unmarshal
      \<lparr>content = concat (map sse_frame test_frames) @ ''data: {"id":"chatcmpl'',
       read_error = Some ''unexpected EOF'', last_read = 0\<rparr>
     = \<lparr>answer = zhe_shi @ yi_ge @ liu_shi @ xiang_ying @ ce_shi,
        failure = Some (ScanFailed (ReadError ''unexpected EOF'')),
        printed = zhe_shi @ yi_ge @ liu_shi @ xiang_ying @ ce_shi\<rparr>
   \<and> handleStreamResponse test_Unmarshal
      \<lparr>content = [], read_error = Some ''unexpected EOF'', last_read = 0\<rparr>
     = \<lparr>answer = [], failure = Some (ScanFailed (ReadError ''unexpected EOF'')), printed = []\<rparr>\<close>
proof -
  have c: "concat test_deltas = zhe_shi @ yi_ge @ liu_shi @ xiang_ying @ ce_shi"
    by (simp add: test_deltas_def)
  have u: \<open>test_Unmarshal ''{"id":"chatcmpl'' = Inl ''invalid character''\<close>
    by (simp add: test_Unmarshal_def test_payload_def)
  have t: \<open>cut_off test_Unmarshal ''data: {"id":"chatcmpl''\<close>
    by (simp add: cut_off_def MaxScanTokenSize_def dropCR_def TrimPrefix_def HasPrefix_def u)
  show ?thesis
    using read_error_keeps_text [OF carries_test_frames fits_test_frames t,
        of "''unexpected EOF''" 0]
    by (simp only: c)
qed

text \<open>
  C9 on the example: a JSON envelope on one line, where a stream was asked for.
\<close>

theorem no_data_lines_empty_answer_witness:
  \<open>handleStreamResponse test_Unmarshal
     \<lparr>content = sse_lines [''{"id":"chatcmpl-123","object":"chat.completion","choices":[]}''] @ [],
      read_error = None, last_read = 0\<rparr>
   = \<lparr>answer = [], failure = None, printed = [CHR 0x0A]\<rparr>\<close>
proof -
  have l: \<open>\<forall>x\<in>set [''{"id":"chatcmpl-123","object":"chat.completion","choices":[]}''].
      CHR 0x0A \<notin> set x \<and> length x < MaxScanTokenSize \<and> \<not> HasPrefix x ''data: ''\<close>
    by (simp add: MaxScanTokenSize_def HasPrefix_def)
  have n: "CHR 0x0A \<notin> set []" "length ([] :: string) < MaxScanTokenSize"
      "\<not> HasPrefix [] ''data: ''"
    by (simp_all add: MaxScanTokenSize_def HasPrefix_def)
  show ?thesis
    by (fact no_data_lines_empty_answer [OF l n])
qed

text \<open>
  C9 as stated fails on a body whose one line has \<open>MaxScanTokenSize\<close> bytes or more:
  no line starts with \<open>data: \<close> and the read ends with end-of-file, and the decoder
  returns the scan error \<open>ErrTooLong\<close>.
\<close>

theorem no_data_lines_empty_answer_counterexample:
  "\<not> HasPrefix long_payload ''data: ''
   \<and> CHR 0x0A \<notin> set long_payload
   \<and> handleStreamResponse test_Unmarshal
       \<lparr>content = long_payload @ [CHR 0x0A], read_error = None, last_read = 0\<rparr>
     = \<lparr>answer = [], failure = Some (ScanFailed ErrTooLong), printed = []\<rparr>"
proof -
  have p: "\<not> HasPrefix long_payload ''data: ''"
    by (simp add: HasPrefix_def long_payload_def test_payload_def)
  have l: "\<forall>x\<in>set [long_payload]. CHR 0x0A \<notin> set x"
    using long_payload_nl by simp
  have f: "feed test_Unmarshal [long_payload] \<lparr>fullContent = [], stdout = []\<rparr>
      = Returned \<lparr>answer = [], failure = Some (ScanFailed ErrTooLong), printed = []\<rparr>"
    unfolding feed_long [OF long_payload_length] stream_return_TooLong ..
  have r: "handleStreamResponse test_Unmarshal
       \<lparr>content = long_payload @ [CHR 0x0A], read_error = None, last_read = 0\<rparr>
     = \<lparr>answer = [], failure = Some (ScanFailed ErrTooLong), printed = []\<rparr>"
    using hsr_Returned [OF l f, of _ "[]"] by (simp add: sse_lines_single)
  show ?thesis
    by (intro conjI) (fact p long_payload_nl r)+
qed

end
